theory Spec2Isabelle
  imports Complex_Main "HOL-Library.Word"
begin

section \<open>Data model\<close>

text \<open>
  A tensor is a flat buffer (\<open>float *\<close>) together with an array of extents (\<open>int dims[]\<close>).
  Buffers are lists, extents and loop indices are naturals (every extent the program builds
  is non-negative, and no claim depends on 32-bit overflow of an offset). Single-precision
  arithmetic is idealised: the element type is any linearly ordered field, so that
  \<open>+\<close>, \<open>*\<close>, \<open>/\<close> and \<open><\<close> are exact. Equalities proved here are therefore the
  equalities "up to floating-point accumulation order" of the specification.

  \<open>range(0, n)\<close> of \<open>range.hpp\<close> is the list \<open>[0..<n]\<close>; a \<open>for\<close> loop over it that
  mutates a buffer is a \<open>fold\<close> of the loop body over that list.
\<close>

definition TILE_WIDTH :: nat where
  "TILE_WIDTH = 16"

definition NUM_ROWS :: nat where
  "NUM_ROWS = 28"

definition NUM_COLS :: nat where
  "NUM_COLS = 28"

definition NUM_CHANNELS :: nat where
  "NUM_CHANNELS = 1"

definition NUM_DIGITS :: nat where
  "NUM_DIGITS = 10"

definition conv1dims :: "nat list" where
  "conv1dims = [5, 5, 1, 32]"

definition conv2dims :: "nat list" where
  "conv2dims = [5, 5, 32, 64]"

definition fc1dims :: "nat list" where
  "fc1dims = [1024, 128]"

definition fc2dims :: "nat list" where
  "fc2dims = [128, 10]"

text \<open>\<open>xdims\<close> and \<open>rdims\<close> are globals whose first entry \<open>main\<close> overwrites with the batch size.\<close>

definition xdims_of :: "nat \<Rightarrow> nat list" where
  "xdims_of batch = [batch, NUM_ROWS, NUM_COLS, NUM_CHANNELS]"

definition rdims_of :: "nat \<Rightarrow> nat list" where
  "rdims_of batch = [batch, NUM_DIGITS]"

text \<open>Modelled from the spec: \<open>zeros<T>(dims)\<close> of the absent \<open>utils.hpp\<close>, and \<open>calloc\<close>:
  a zero-initialised buffer with one element per cell of the shape.\<close>

definition zeros :: "nat list \<Rightarrow> ('a::zero) list" where
  "zeros dims = replicate (prod_list dims) 0"

section \<open>Sequential operators\<close>

subsection \<open>Direct-form convolution\<close>

definition conv_forward_valid ::
  "('a::linordered_field) list \<Rightarrow> nat list \<Rightarrow> 'a list \<Rightarrow> nat list \<Rightarrow> 'a list \<Rightarrow> nat list \<Rightarrow> 'a list" where
  "conv_forward_valid X xdims W wdims Y ydims =
    (let filter_h = wdims ! 0; filter_w = wdims ! 1; in_channel = wdims ! 2 in
     fold (\<lambda>i. fold (\<lambda>m. fold (\<lambda>w. fold (\<lambda>h. fold (\<lambda>p. fold (\<lambda>q. fold (\<lambda>c Y.
       let yoffset = ((i * ydims ! 1 + h) * ydims ! 2 + w) * ydims ! 3 + m;
           xoffset = i * xdims ! 1 * xdims ! 2 * xdims ! 3 + (h + p) * xdims ! 2 * xdims ! 3
                     + (w + q) * xdims ! 3 + c;
           woffset = p * wdims ! 1 * wdims ! 2 * wdims ! 3 + q * wdims ! 2 * wdims ! 3
                     + c * wdims ! 3 + m
       in Y[yoffset := Y ! yoffset + X ! xoffset * W ! woffset])
       [0..<in_channel]) [0..<filter_w]) [0..<filter_h])
       [0..<ydims ! 1]) [0..<ydims ! 2]) [0..<ydims ! 3]) [0..<ydims ! 0] Y)"

subsection \<open>Rectified linear unit\<close>

definition relu4 :: "('a::linordered_field) list \<Rightarrow> nat list \<Rightarrow> 'a list" where
  "relu4 X xdims =
    fold (\<lambda>i X. X[i := (if X ! i < 0 then 0 else X ! i)])
      [0..<xdims ! 0 * xdims ! 1 * xdims ! 2 * xdims ! 3] X"

definition relu2 :: "('a::linordered_field) list \<Rightarrow> nat list \<Rightarrow> 'a list" where
  "relu2 X xdims =
    fold (\<lambda>i X. X[i := (if X ! i < 0 then 0 else X ! i)]) [0..<xdims ! 0 * xdims ! 1] X"

subsection \<open>Average pooling\<close>

definition average_pool ::
  "('a::linordered_field) list \<Rightarrow> nat list \<Rightarrow> nat \<Rightarrow> 'a list \<Rightarrow> nat list \<Rightarrow> 'a list" where
  "average_pool X xdims pool_size Y ydims =
    fold (\<lambda>i. fold (\<lambda>m. fold (\<lambda>w. fold (\<lambda>h. fold (\<lambda>p. fold (\<lambda>q Y.
       let yoffset = ((i * ydims ! 1 + h) * ydims ! 2 + w) * ydims ! 3 + m;
           xoffset = i * xdims ! 1 * xdims ! 2 * xdims ! 3
                     + (pool_size * h + p) * xdims ! 2 * xdims ! 3
                     + (pool_size * w + q) * xdims ! 3 + m
       in Y[yoffset := Y ! yoffset + X ! xoffset / (1 * of_nat pool_size * of_nat pool_size)])
       [0..<pool_size]) [0..<pool_size])
       [0..<ydims ! 1]) [0..<ydims ! 2]) [0..<ydims ! 3]) [0..<ydims ! 0] Y"

subsection \<open>Fully connected layer, sequential variant\<close>

definition fully_forward_seq ::
  "('a::linordered_field) list \<Rightarrow> nat list \<Rightarrow> 'a list \<Rightarrow> nat list \<Rightarrow> 'a list \<Rightarrow> nat list \<Rightarrow> 'a list" where
  "fully_forward_seq X xdims W wdims Y ydims =
    fold (\<lambda>i. fold (\<lambda>j Y.
       let sum = fold (\<lambda>k sum. sum + X ! (i * xdims ! 1 + k) * W ! (k * wdims ! 1 + j))
                   [0..<xdims ! 1] 0
       in Y[i * wdims ! 1 + j := sum])
       [0..<wdims ! 1]) [0..<xdims ! 0] Y"

subsection \<open>Argmax\<close>

definition argmax :: "('a::linordered_field) list \<Rightarrow> nat list \<Rightarrow> nat list \<Rightarrow> nat list" where
  "argmax X xdims Y =
    fold (\<lambda>i Y.
       let max_idx = 0; max = X ! (i * xdims ! 1);
           (max_idx, max) = fold (\<lambda>j (max_idx, max).
               let elem = X ! (i * xdims ! 1 + j)
               in if elem > max then (j, elem) else (max_idx, max))
             [0..<xdims ! 1] (max_idx, max)
       in Y[i := max_idx])
      [0..<xdims ! 0] Y"

section \<open>CUDA path\<close>

text \<open>
  A kernel launch \<open>k<<<grid, block>>>(\<dots>)\<close> runs the kernel body once per thread of every
  block. Threads of one launch write disjoint cells (or the same value to the same cell), so
  the launch is modelled as a \<open>fold\<close> of the thread body over the blocks and threads. Where
  the kernel uses \<open>__syncthreads()\<close>, the block is executed barrier interval by barrier
  interval: every thread of the block runs the code up to the barrier before any thread
  continues.

  \<open>malloc\<close> and \<open>cudaMalloc\<close> return buffers of arbitrary content: the content is a parameter
  (a function from offsets to values), the length is the requested one. \<open>__shared__\<close> arrays
  start with arbitrary content too.
\<close>

definition malloc :: "(nat \<Rightarrow> 'a) \<Rightarrow> nat \<Rightarrow> 'a list" where
  "malloc content n = map content [0..<n]"

text \<open>\<open>cudaMemcpy(dst, src, count * sizeof(float), \<dots>)\<close>: the first \<open>count\<close> elements of
  \<open>dst\<close> are replaced by those of \<open>src\<close>.\<close>

definition cudaMemcpy :: "'a list \<Rightarrow> 'a list \<Rightarrow> nat \<Rightarrow> 'a list" where
  "cudaMemcpy dst src count = take count src @ drop count dst"

text \<open>\<open>ceil((1.0 * a) / b)\<close> on non-negative integers.\<close>

definition ceil_div :: "nat \<Rightarrow> nat \<Rightarrow> nat" where
  "ceil_div a b = (a + b - 1) div b"

subsection \<open>Tiled matrix multiplication\<close>

record 'a shared_tiles =
  Ads :: "nat \<Rightarrow> nat \<Rightarrow> 'a"
  Bds :: "nat \<Rightarrow> nat \<Rightarrow> 'a"

text \<open>The threads of a block, as pairs \<open>(threadIdx.y, threadIdx.x)\<close>, for
  \<open>blockDim = (TILE_WIDTH, TILE_WIDTH, 1)\<close>.\<close>

definition block_threads :: "(nat \<times> nat) list" where
  "block_threads = List.product [0..<TILE_WIDTH] [0..<TILE_WIDTH]"

text \<open>One thread's two guarded loads of a phase (lines 138--150).\<close>

definition matrixMultiplyShared_load ::
  "('a::linordered_field) list \<Rightarrow> 'a list \<Rightarrow> nat \<Rightarrow> nat \<Rightarrow> nat \<Rightarrow> nat \<Rightarrow> nat
   \<Rightarrow> nat \<times> nat \<Rightarrow> nat \<Rightarrow> nat \<times> nat \<Rightarrow> 'a shared_tiles \<Rightarrow> 'a shared_tiles" where
  "matrixMultiplyShared_load A B numAColumns numBRows numBColumns numCRows numCColumns
      blockIdx phase threadIdx sh =
    (let (bx, by) = blockIdx; (ty, tx) = threadIdx;
         CRow = by * TILE_WIDTH + ty;
         CCol = bx * TILE_WIDTH + tx;
         sh = (if CRow < numCRows \<and> tx + phase * TILE_WIDTH < numAColumns
               then sh\<lparr>Ads := (Ads sh)(ty := (Ads sh ty)
                        (tx := A ! (CRow * numAColumns + tx + phase * TILE_WIDTH)))\<rparr>
               else sh)
     in (if CCol < numCColumns \<and> ty + phase * TILE_WIDTH < numBRows
         then sh\<lparr>Bds := (Bds sh)(ty := (Bds sh ty)
                  (tx := B ! ((ty + phase * TILE_WIDTH) * numBColumns + CCol)))\<rparr>
         else sh))"

text \<open>One thread's partial dot product of a phase (lines 154--160), added to its \<open>Cval\<close>.\<close>

definition matrixMultiplyShared_dot ::
  "nat \<Rightarrow> nat \<Rightarrow> nat \<Rightarrow> ('a::linordered_field) shared_tiles \<Rightarrow> nat \<times> nat \<Rightarrow> 'a \<Rightarrow> 'a" where
  "matrixMultiplyShared_dot numAColumns numBRows phase sh threadIdx Cval =
    (let (ty, tx) = threadIdx in
     fold (\<lambda>dot Cval.
        if dot + phase * TILE_WIDTH < numAColumns \<and> dot + phase * TILE_WIDTH < numBRows
        then Cval + Ads sh ty dot * Bds sh dot tx else Cval)
       [0..<TILE_WIDTH] Cval)"

text \<open>One phase of a block: all threads load, barrier, all threads accumulate, barrier.
  The state is the shared tiles and every thread's register \<open>Cval\<close>.\<close>

definition matrixMultiplyShared_phase ::
  "('a::linordered_field) list \<Rightarrow> 'a list \<Rightarrow> nat \<Rightarrow> nat \<Rightarrow> nat \<Rightarrow> nat \<Rightarrow> nat
   \<Rightarrow> nat \<times> nat \<Rightarrow> nat \<Rightarrow> 'a shared_tiles \<times> (nat \<times> nat \<Rightarrow> 'a)
   \<Rightarrow> 'a shared_tiles \<times> (nat \<times> nat \<Rightarrow> 'a)" where
  "matrixMultiplyShared_phase A B numAColumns numBRows numBColumns numCRows numCColumns
      blockIdx phase st =
    (let (sh, Cval) = st;
         sh = fold (matrixMultiplyShared_load A B numAColumns numBRows numBColumns
                      numCRows numCColumns blockIdx phase) block_threads sh
     in (sh, \<lambda>t. matrixMultiplyShared_dot numAColumns numBRows phase sh t (Cval t)))"

text \<open>One thread's guarded store of the clamped result (lines 168--171); \<open>C\<close> is the buffer
  the pointer argument points into, \<open>Cbase\<close> the offset of the pointer in it.\<close>

definition matrixMultiplyShared_store ::
  "nat \<Rightarrow> nat \<Rightarrow> nat \<Rightarrow> nat \<times> nat \<Rightarrow> (nat \<times> nat \<Rightarrow> ('a::linordered_field))
   \<Rightarrow> nat \<times> nat \<Rightarrow> 'a list \<Rightarrow> 'a list" where
  "matrixMultiplyShared_store Cbase numCRows numCColumns blockIdx Cval threadIdx C =
    (let (bx, by) = blockIdx; (ty, tx) = threadIdx;
         CRow = by * TILE_WIDTH + ty;
         CCol = bx * TILE_WIDTH + tx
     in if CRow < numCRows \<and> CCol < numCColumns
        then C[Cbase + (CRow * numCColumns + CCol) :=
                 (if Cval threadIdx < 0 then 0 else Cval threadIdx)]
        else C)"

definition matrixMultiplyShared_block ::
  "('a::linordered_field) list \<Rightarrow> 'a list \<Rightarrow> nat \<Rightarrow> nat \<Rightarrow> nat \<Rightarrow> nat \<Rightarrow> nat
   \<Rightarrow> nat \<Rightarrow> nat \<Rightarrow> (nat \<times> nat \<Rightarrow> 'a shared_tiles) \<Rightarrow> nat \<times> nat \<Rightarrow> 'a list \<Rightarrow> 'a list" where
  "matrixMultiplyShared_block A B Cbase numARows numAColumns numBRows numBColumns
      numCRows numCColumns shared0 blockIdx C =
    (let (sh, Cval) =
           fold (matrixMultiplyShared_phase A B numAColumns numBRows numBColumns
                   numCRows numCColumns blockIdx)
             [0..<(numAColumns - 1) div TILE_WIDTH + 1] (shared0 blockIdx, \<lambda>t. 0)
     in fold (matrixMultiplyShared_store Cbase numCRows numCColumns blockIdx Cval)
          block_threads C)"

text \<open>The launch \<open>matrixMultiplyShared<<<gridDim, (TILE_WIDTH, TILE_WIDTH, 1)>>>(A, B, C + Cbase, \<dots>)\<close>.\<close>

definition matrixMultiplyShared ::
  "nat \<times> nat \<Rightarrow> (nat \<times> nat \<Rightarrow> 'a shared_tiles) \<Rightarrow> ('a::linordered_field) list \<Rightarrow> 'a list
   \<Rightarrow> 'a list \<Rightarrow> nat \<Rightarrow> nat \<Rightarrow> nat \<Rightarrow> nat \<Rightarrow> nat \<Rightarrow> nat \<Rightarrow> nat \<Rightarrow> 'a list" where
  "matrixMultiplyShared gridDim shared0 A B C Cbase numARows numAColumns numBRows numBColumns
      numCRows numCColumns =
    fold (matrixMultiplyShared_block A B Cbase numARows numAColumns numBRows numBColumns
            numCRows numCColumns shared0)
      (List.product [0..<fst gridDim] [0..<snd gridDim]) C"

subsection \<open>Filter unroll, input unroll, output reroll\<close>

text \<open>The launch \<open>unrollFilters<<<C, M>>>\<close>: thread \<open>m\<close> of block \<open>c\<close>.\<close>

definition unrollFilters_thread ::
  "nat \<Rightarrow> nat \<Rightarrow> nat \<Rightarrow> 'a list \<Rightarrow> nat \<Rightarrow> nat \<Rightarrow> 'a list \<Rightarrow> 'a list" where
  "unrollFilters_thread C M K W c m W_unroll =
    (if c < C \<and> m < M
     then fold (\<lambda>p. fold (\<lambda>q W_unroll.
            W_unroll[m * C * K * K + c * K * K + p * K + q :=
                       W ! (p * K * C * M + q * C * M + c * M + m)])
            [0..<K]) [0..<K] W_unroll
     else W_unroll)"

definition unrollFilters ::
  "nat \<times> nat \<Rightarrow> nat \<Rightarrow> nat \<Rightarrow> nat \<Rightarrow> 'a list \<Rightarrow> 'a list \<Rightarrow> 'a list" where
  "unrollFilters launch C M K W W_unroll =
    fold (\<lambda>c. fold (\<lambda>m. unrollFilters_thread C M K W c m) [0..<snd launch])
      [0..<fst launch] W_unroll"

text \<open>The launch \<open>rerollOutput<<<N, M>>>\<close>: thread \<open>m\<close> of block \<open>n\<close>.\<close>

definition rerollOutput_thread ::
  "nat \<Rightarrow> nat \<Rightarrow> nat \<Rightarrow> nat \<Rightarrow> 'a list \<Rightarrow> nat \<Rightarrow> nat \<Rightarrow> 'a list \<Rightarrow> 'a list" where
  "rerollOutput_thread M N H_out W_out Y_unrolled n m Y =
    (if m < M \<and> n < N
     then fold (\<lambda>h. fold (\<lambda>w Y.
            Y[((n * H_out + h) * W_out + w) * M + m :=
                Y_unrolled ! (n * M * H_out * W_out + m * H_out * W_out + h * W_out + w)])
            [0..<W_out]) [0..<H_out] Y
     else Y)"

definition rerollOutput ::
  "nat \<times> nat \<Rightarrow> nat \<Rightarrow> nat \<Rightarrow> nat \<Rightarrow> nat \<Rightarrow> 'a list \<Rightarrow> 'a list \<Rightarrow> 'a list" where
  "rerollOutput launch M N H_out W_out Y_unrolled Y =
    fold (\<lambda>n. fold (\<lambda>m. rerollOutput_thread M N H_out W_out Y_unrolled n m) [0..<snd launch])
      [0..<fst launch] Y"

text \<open>\<open>H - K + 1\<close> is written \<open>H + 1 - K\<close>: on naturals both are the source's value when
  \<open>K \<le> H\<close>, and the second is still 0 (an empty loop, as in the source) when \<open>K = H + 1\<close>.
  The parameter \<open>xdims\<close> of \<open>unroll\<close>, which its body never reads, is left out.\<close>

definition unroll ::
  "nat \<Rightarrow> nat \<Rightarrow> nat \<Rightarrow> nat \<Rightarrow> nat \<Rightarrow> 'a list \<Rightarrow> 'a list \<Rightarrow> 'a list" where
  "unroll C H W K n X X_unroll =
    (let H_out = H + 1 - K; W_out = W + 1 - K; W_unroll = C * K * K; H_unroll = H_out * W_out in
     fold (\<lambda>c. let w_base = c * (K * K) in
       fold (\<lambda>p. fold (\<lambda>q. fold (\<lambda>h. fold (\<lambda>w X_unroll.
         let w_unroll = w_base + p * K + q;
             h_unroll = h * W_out + w;
             x_index = n * H * W * C + (h + p) * W * C + (w + q) * C + c
         in X_unroll[w_unroll * H_unroll + h_unroll := X ! x_index])
         [0..<W_out]) [0..<H_out]) [0..<K]) [0..<K])
       [0..<C] X_unroll)"

subsection \<open>Convolution by unrolling and matrix multiplication\<close>

record 'a conv_uninit =
  host_X_unrolled :: "nat \<Rightarrow> 'a"
  dev_W_unrolled :: "nat \<Rightarrow> 'a"
  dev_W :: "nat \<Rightarrow> 'a"
  dev_X_unrolled :: "nat \<Rightarrow> 'a"
  dev_Y_unrolled :: "nat \<Rightarrow> 'a"
  dev_Y :: "nat \<Rightarrow> 'a"
  shared_mem :: "nat \<Rightarrow> nat \<times> nat \<Rightarrow> 'a shared_tiles"

text \<open>The body of the loop over the samples (lines 275--287); the state is the host buffer
  \<open>X_unrolled\<close> and the device buffers \<open>device_X_unrolled\<close> and \<open>device_Y_unrolled\<close>.\<close>

definition convLayer_forward_sample ::
  "('a::linordered_field) conv_uninit \<Rightarrow> nat \<Rightarrow> nat \<Rightarrow> nat \<Rightarrow> nat \<Rightarrow> nat \<Rightarrow> 'a list \<Rightarrow> 'a list
   \<Rightarrow> nat \<times> nat \<Rightarrow> nat list \<Rightarrow> nat \<Rightarrow> 'a list \<times> 'a list \<times> 'a list \<Rightarrow> 'a list \<times> 'a list \<times> 'a list" where
  "convLayer_forward_sample u M C H W K X device_W_unrolled gridDimension2 ydims n st =
    (let W_out = W + 1 - K; H_out = H + 1 - K;
         W_unroll = C * K * K; H_unroll = H_out * W_out;
         (X_unrolled, device_X_unrolled, device_Y_unrolled) = st;
         X_unrolled = unroll C H W K n X X_unrolled;
         device_X_unrolled = cudaMemcpy device_X_unrolled X_unrolled (W_unroll * H_unroll);
         device_Y_unrolled =
           matrixMultiplyShared gridDimension2 (shared_mem u n)
             device_W_unrolled device_X_unrolled
             device_Y_unrolled (n * ydims ! 1 * ydims ! 2 * ydims ! 3)
             M (C * K * K) W_unroll H_unroll M H_unroll
     in (X_unrolled, device_X_unrolled, device_Y_unrolled))"

definition convLayer_forward ::
  "('a::linordered_field) conv_uninit \<Rightarrow> nat \<Rightarrow> nat \<Rightarrow> nat \<Rightarrow> nat \<Rightarrow> nat \<Rightarrow> nat
   \<Rightarrow> 'a list \<Rightarrow> 'a list \<Rightarrow> 'a list \<Rightarrow> nat list \<Rightarrow> nat list \<Rightarrow> 'a list" where
  "convLayer_forward u N M C H W K X Mask Y xdims ydims =
    (let W_out = W + 1 - K; H_out = H + 1 - K;
         W_unroll = C * K * K; H_unroll = H_out * W_out;
         X_unrolled = malloc (host_X_unrolled u) (W_unroll * H_unroll);
         device_W_unrolled = malloc (dev_W_unrolled u) (M * C * K * K);
         device_W = malloc (dev_W u) (M * C * K * K);
         device_W = cudaMemcpy device_W Mask (M * C * K * K);
         device_W_unrolled = unrollFilters (C, M) C M K device_W device_W_unrolled;
         device_X_unrolled = malloc (dev_X_unrolled u) (W_unroll * H_unroll);
         device_Y_unrolled = malloc (dev_Y_unrolled u) (M * N * W_out * H_out);
         gridDimension2 = (ceil_div H_unroll TILE_WIDTH, ceil_div M TILE_WIDTH);
         (X_unrolled, device_X_unrolled, device_Y_unrolled) =
           fold (convLayer_forward_sample u M C H W K X device_W_unrolled gridDimension2 ydims)
             [0..<N] (X_unrolled, device_X_unrolled, device_Y_unrolled);
         device_Y = malloc (dev_Y u) (M * N * W_out * H_out);
         device_Y = rerollOutput (N, M) M N H_out W_out device_Y_unrolled device_Y
     in cudaMemcpy Y device_Y (M * N * W_out * H_out))"

subsection \<open>Average-pool kernel\<close>

text \<open>One thread of \<open>average_pool_kernel\<close>; \<open>blockIdx = (x, y, z)\<close>,
  \<open>threadIdx = (y, x)\<close>.\<close>

definition average_pool_kernel ::
  "('a::linordered_field) list \<Rightarrow> nat list \<Rightarrow> nat list \<Rightarrow> nat \<Rightarrow> nat \<times> nat \<times> nat \<Rightarrow> nat \<times> nat
   \<Rightarrow> 'a list \<Rightarrow> 'a list" where
  "average_pool_kernel X xdims ydims pool_size blockIdx threadIdx Y =
    (let (bx, by, bz) = blockIdx; (ty, tx) = threadIdx;
         n = bx; m = by;
         h = (bz div ((ydims ! 2 - 1) div TILE_WIDTH + 1)) * TILE_WIDTH + ty;
         w = (bz mod ((ydims ! 1 - 1) div TILE_WIDTH + 1)) * TILE_WIDTH + tx;
         i = n
     in if w < ydims ! 2 \<and> h < ydims ! 1
        then let acc = fold (\<lambda>p. fold (\<lambda>q acc.
                   let xoffset = i * xdims ! 1 * xdims ! 2 * xdims ! 3
                                 + (pool_size * h + p) * xdims ! 2 * xdims ! 3
                                 + (pool_size * w + q) * xdims ! 3 + m
                   in acc + X ! xoffset / (1 * of_nat pool_size * of_nat pool_size))
                   [0..<pool_size]) [0..<pool_size] 0;
                 yoffset = ((i * ydims ! 1 + h) * ydims ! 2 + w) * ydims ! 3 + m
             in Y[yoffset := acc]
        else Y)"

text \<open>The launch as \<open>forward_operation\<close> configures it (lines 508--515 and 576--583):
  grid \<open>(N, M, Z)\<close> with \<open>Z\<close> computed from the output extents, blocks of
  \<open>TILE_WIDTH \<times> TILE_WIDTH\<close> threads.\<close>

definition average_pool_launch ::
  "nat \<Rightarrow> nat \<Rightarrow> ('a::linordered_field) list \<Rightarrow> 'a list \<Rightarrow> nat list \<Rightarrow> nat list \<Rightarrow> nat \<Rightarrow> 'a list" where
  "average_pool_launch N M X Y xdims ydims pool_size =
    (let Z = ((ydims ! 2 - 1) div TILE_WIDTH + 1) * ((ydims ! 1 - 1) div TILE_WIDTH + 1) in
     fold (\<lambda>bx. fold (\<lambda>by. fold (\<lambda>bz.
       fold (average_pool_kernel X xdims ydims pool_size (bx, by, bz)) block_threads)
       [0..<Z]) [0..<M]) [0..<N] Y)"

subsection \<open>Fully connected layer, CUDA variant\<close>

definition fully_forward_cuda ::
  "('a::linordered_field) list \<Rightarrow> nat list \<Rightarrow> 'a list \<Rightarrow> nat list \<Rightarrow> 'a list \<Rightarrow> nat list \<Rightarrow> 'a list" where
  "fully_forward_cuda X xdims W wdims Y ydims =
    fold (\<lambda>i. fold (\<lambda>j Y.
       let sum = fold (\<lambda>k sum. sum + X ! (i * xdims ! 1 + k) * W ! (k * wdims ! 1 + j))
                   [0..<xdims ! 1] 0
       in Y[i * wdims ! 1 + j := (if sum < 0 then 0 else sum)])
       [0..<wdims ! 1]) [0..<xdims ! 0] Y"

section \<open>Forward pipeline\<close>

text \<open>The shapes \<open>forward_operation\<close> derives before it allocates anything; both variants
  of the function compute them by the same expressions (with \<open>pool_size = 2\<close>). The two subtractions are
  between the constants 28 and 5, and 12 and 5, so subtraction on naturals is the
  source's.\<close>

record fwd_dims =
  adims :: "nat list"
  bdims :: "nat list"
  cdims :: "nat list"
  ddims :: "nat list"
  ddims2 :: "nat list"
  edims :: "nat list"
  fdims :: "nat list"

definition pool_size :: nat where
  "pool_size = 2"

definition forward_operation_dims :: "nat \<Rightarrow> fwd_dims" where
  "forward_operation_dims batch =
    (let xdims = xdims_of batch;
         adims = [xdims ! 0, (xdims ! 1 - conv1dims ! 0 + 1), (xdims ! 2 - conv1dims ! 1 + 1),
                  conv1dims ! 3];
         bdims = [adims ! 0, adims ! 1 div pool_size, adims ! 2 div pool_size, adims ! 3];
         cdims = [bdims ! 0, (bdims ! 1 - conv2dims ! 0 + 1), (bdims ! 2 - conv2dims ! 1 + 1),
                  conv2dims ! 3];
         ddims = [cdims ! 0, cdims ! 1 div pool_size, cdims ! 2 div pool_size, cdims ! 3];
         ddims2 = [ddims ! 0, ddims ! 1 * ddims ! 2 * ddims ! 3];
         edims = [ddims ! 0, fc1dims ! 1];
         fdims = [edims ! 0, fc2dims ! 1]
     in \<lparr>adims = adims, bdims = bdims, cdims = cdims, ddims = ddims, ddims2 = ddims2,
         edims = edims, fdims = fdims\<rparr>)"

subsection \<open>Sequential variant\<close>

definition forward_operation_seq ::
  "nat \<Rightarrow> ('a::linordered_field) list \<Rightarrow> 'a list \<Rightarrow> 'a list \<Rightarrow> 'a list \<Rightarrow> 'a list \<Rightarrow> nat list
   \<Rightarrow> nat list" where
  "forward_operation_seq batch x conv1 conv2 fc1 fc2 out =
    (let D = forward_operation_dims batch; xdims = xdims_of batch;
         a = zeros (adims D);
         a = conv_forward_valid x xdims conv1 conv1dims a (adims D);
         a = relu4 a (adims D);
         b = zeros (bdims D);
         b = average_pool a (adims D) pool_size b (bdims D);
         c = zeros (cdims D);
         c = conv_forward_valid b (bdims D) conv2 conv2dims c (cdims D);
         c = relu4 c (cdims D);
         d = zeros (ddims D);
         d = average_pool c (cdims D) pool_size d (ddims D);
         e = zeros (edims D);
         e = fully_forward_seq d (ddims2 D) fc1 fc1dims e (edims D);
         e = relu2 e (edims D);
         f = zeros (fdims D);
         f = fully_forward_seq e (edims D) fc2 fc2dims f (fdims D)
     in argmax f (fdims D) out)"

subsection \<open>CUDA variant\<close>

record 'a fwd_uninit =
  conv1_uninit :: "'a conv_uninit"
  conv2_uninit :: "'a conv_uninit"
  conv1Output0 :: "nat \<Rightarrow> 'a"
  conv2Output0 :: "nat \<Rightarrow> 'a"
  deviceInputPool1_0 :: "nat \<Rightarrow> 'a"
  deviceOutputPool1_0 :: "nat \<Rightarrow> 'a"
  deviceInputPool2_0 :: "nat \<Rightarrow> 'a"
  deviceOutputPool2_0 :: "nat \<Rightarrow> 'a"

text \<open>The score matrix \<open>f\<close> that \<open>forward_operation\<close> hands to \<open>argmax\<close> (lines 440--597).
  The host buffers \<open>a\<close>, \<open>c\<close> and \<open>d\<close> are allocated and never used.\<close>

definition forward_operation_cuda_f ::
  "('a::linordered_field) fwd_uninit \<Rightarrow> nat \<Rightarrow> 'a list \<Rightarrow> 'a list \<Rightarrow> 'a list \<Rightarrow> 'a list \<Rightarrow> 'a list
   \<Rightarrow> 'a list" where
  "forward_operation_cuda_f u batch x conv1 conv2 fc1 fc2 =
    (let D = forward_operation_dims batch; xdims = xdims_of batch;
         adims = adims D; bdims = bdims D; cdims = cdims D; ddims = ddims D;
         ddims2 = ddims2 D; edims = edims D; fdims = fdims D;
         conv1Output = malloc (conv1Output0 u)
                         (adims ! 0 * adims ! 1 * adims ! 2 * adims ! 3 * xdims ! 3);
         b = zeros bdims;
         conv2Output = malloc (conv2Output0 u) (cdims ! 0 * cdims ! 1 * cdims ! 2 * cdims ! 3);
         pool2Output = zeros ddims;
         e = zeros edims;
         f = zeros fdims;
         conv1Output = convLayer_forward (conv1_uninit u) (xdims ! 0) (conv1dims ! 3)
                         (conv1dims ! 2) (xdims ! 1) (xdims ! 2) (conv1dims ! 0)
                         x conv1 conv1Output xdims adims;
         deviceInputPool1 = malloc (deviceInputPool1_0 u)
                              (adims ! 0 * adims ! 1 * adims ! 2 * adims ! 3 * xdims ! 3);
         deviceInputPool1 = cudaMemcpy deviceInputPool1 conv1Output
                              (adims ! 0 * adims ! 1 * adims ! 2 * adims ! 3 * xdims ! 3);
         deviceOutputPool1 = malloc (deviceOutputPool1_0 u)
                               (bdims ! 0 * bdims ! 1 * bdims ! 2 * bdims ! 3 * xdims ! 3);
         N = adims ! 0; M = conv1dims ! 3;
         deviceOutputPool1 = average_pool_launch N M deviceInputPool1 deviceOutputPool1
                               adims bdims pool_size;
         b = cudaMemcpy b deviceOutputPool1 (bdims ! 0 * bdims ! 1 * bdims ! 2 * bdims ! 3);
         conv2Output = convLayer_forward (conv2_uninit u) (xdims ! 0) (conv2dims ! 3)
                         (conv2dims ! 2) (bdims ! 1) (bdims ! 2) (conv2dims ! 0)
                         b conv2 conv2Output bdims cdims;
         deviceInputPool2 = malloc (deviceInputPool2_0 u)
                              (cdims ! 0 * cdims ! 1 * cdims ! 2 * cdims ! 3);
         deviceInputPool2 = cudaMemcpy deviceInputPool2 conv2Output
                              (cdims ! 0 * cdims ! 1 * cdims ! 2 * cdims ! 3);
         deviceOutputPool2 = malloc (deviceOutputPool2_0 u)
                               (ddims ! 0 * ddims ! 1 * ddims ! 2 * ddims ! 3 * xdims ! 3);
         N = cdims ! 0; M = conv2dims ! 3;
         deviceOutputPool2 = average_pool_launch N M deviceInputPool2 deviceOutputPool2
                               cdims ddims pool_size;
         pool2Output = cudaMemcpy pool2Output deviceOutputPool2
                         (ddims ! 0 * ddims ! 1 * ddims ! 2 * ddims ! 3 * xdims ! 3);
         e = fully_forward_cuda pool2Output ddims2 fc1 fc1dims e edims;
         f = fully_forward_cuda e edims fc2 fc2dims f fdims
     in f)"

definition forward_operation_cuda ::
  "('a::linordered_field) fwd_uninit \<Rightarrow> nat \<Rightarrow> 'a list \<Rightarrow> 'a list \<Rightarrow> 'a list \<Rightarrow> 'a list \<Rightarrow> 'a list
   \<Rightarrow> nat list \<Rightarrow> nat list" where
  "forward_operation_cuda u batch x conv1 conv2 fc1 fc2 out =
    argmax (forward_operation_cuda_f u batch x conv1 conv2 fc1 fc2)
      (fdims (forward_operation_dims batch)) out"

section \<open>Loading the test data\<close>

text \<open>How a call of \<open>loadData\<close> ends: it returns a code, or the process is aborted by
  \<open>assert\<close> or by \<open>check_success\<close>.\<close>

datatype load_result = Returned int | Aborted

text \<open>What the HDF5 library answers for the test-data file: the rank and the extents of
  \<open>/x\<close> (\<open>hsize_t\<close>, unsigned 64-bit), the status and the data of the two \<open>H5Dread\<close> calls, and
  the statuses of the three close calls.\<close>

record 'a h5_source =
  xndims :: int
  input_dims :: "64 word list"
  x_read :: "int \<times> 'a list"
  y_read :: "int \<times> 'a list"
  x_close :: int
  y_close :: int
  file_close :: int

text \<open>\<open>H5Dread\<close> with \<open>H5S_ALL\<close> copies the whole dataset to the start of the buffer.\<close>

definition H5Dread :: "'a list \<Rightarrow> 'a list \<Rightarrow> 'a list" where
  "H5Dread buf data = data @ drop (length data) buf"

text \<open>\<open>check_success\<close> is a macro of the absent \<open>utils.hpp\<close>; it is a parameter: the
  predicate on status codes under which execution continues. \<open>FLAGS_batch_size\<close> is an
  \<open>int\<close>; the comparison with \<open>input_dims[0]\<close> converts it to \<open>hsize_t\<close>. The two messages
  printed to \<open>std::cout\<close> are not modelled.\<close>

definition loadData ::
  "(int \<Rightarrow> bool) \<Rightarrow> 'a h5_source \<Rightarrow> int \<Rightarrow> 'a list \<times> 'a list \<Rightarrow> load_result \<times> 'a list \<times> 'a list" where
  "loadData check_success src FLAGS_batch_size bufs =
    (let (x, y) = bufs in
     if xndims src \<noteq> 4 then (Aborted, x, y)
     else if input_dims src ! 0 \<noteq> word_of_int FLAGS_batch_size then (Returned 1, x, y)
     else
       let x = H5Dread x (snd (x_read src)) in
       if \<not> check_success (fst (x_read src)) then (Aborted, x, y)
       else
         let y = H5Dread y (snd (y_read src)) in
         if \<not> check_success (fst (y_read src)) then (Aborted, x, y)
         else if \<not> check_success (x_close src) then (Aborted, x, y)
         else if \<not> check_success (y_close src) then (Aborted, x, y)
         else if \<not> check_success (file_close src) then (Aborted, x, y)
         else (Returned 0, x, y))"

section \<open>Specification vocabulary\<close>

text \<open>The cell of the convolution contract: the triple sum of the specification, with
  row-major addressing of \<open>X\<close> (shape \<open>xdims\<close>) and \<open>W\<close> (shape \<open>wdims\<close>).\<close>

definition conv_cell ::
  "('a::linordered_field) list \<Rightarrow> nat list \<Rightarrow> 'a list \<Rightarrow> nat list \<Rightarrow> nat \<Rightarrow> nat \<Rightarrow> nat \<Rightarrow> nat \<Rightarrow> 'a" where
  "conv_cell X xdims W wdims n h w m =
    (\<Sum>p<wdims ! 0. \<Sum>q<wdims ! 1. \<Sum>c<wdims ! 2.
       X ! (((n * xdims ! 1 + (h + p)) * xdims ! 2 + (w + q)) * xdims ! 3 + c)
       * W ! (((p * wdims ! 1 + q) * wdims ! 2 + c) * wdims ! 3 + m))"

text \<open>The cell of the average-pool contract: the mean of the \<open>f \<times> f\<close> window.\<close>

definition pool_cell ::
  "('a::linordered_field) list \<Rightarrow> nat list \<Rightarrow> nat \<Rightarrow> nat \<Rightarrow> nat \<Rightarrow> nat \<Rightarrow> nat \<Rightarrow> 'a" where
  "pool_cell X xdims f n h w c =
    (1 / (of_nat f)\<^sup>2) * (\<Sum>p<f. \<Sum>q<f.
       X ! (((n * xdims ! 1 + (f * h + p)) * xdims ! 2 + (f * w + q)) * xdims ! 3 + c))"

text \<open>A buffer transformer that adds \<open>d k\<close> to every cell \<open>k\<close> of the buffer.\<close>

definition acc_by :: "('a::linordered_field list \<Rightarrow> 'a list) \<Rightarrow> (nat \<Rightarrow> 'a) \<Rightarrow> bool" where
  "acc_by F d \<longleftrightarrow> (\<forall>Y. length (F Y) = length Y \<and> (\<forall>k<length Y. F Y ! k = Y ! k + d k))"

text \<open>A buffer transformer that overwrites exactly the cells in \<open>S\<close>, cell \<open>k\<close> with \<open>g k\<close>.\<close>

definition writes :: "('a list \<Rightarrow> 'a list) \<Rightarrow> nat set \<Rightarrow> (nat \<Rightarrow> 'a) \<Rightarrow> bool" where
  "writes F S g \<longleftrightarrow>
    (\<forall>Y. length (F Y) = length Y \<and> (\<forall>k<length Y. F Y ! k = (if k \<in> S then g k else Y ! k)))"

text \<open>\<open>r\<close> is the smallest column index at which row \<open>i\<close> of the \<open>rows \<times> C\<close> matrix \<open>X\<close>
  attains its maximum.\<close>

definition first_max_index :: "('a::linorder) list \<Rightarrow> nat \<Rightarrow> nat \<Rightarrow> nat \<Rightarrow> bool" where
  "first_max_index X C i r \<longleftrightarrow>
    r < C \<and> (\<forall>j<C. X ! (i * C + j) \<le> X ! (i * C + r)) \<and> (\<forall>j<r. X ! (i * C + j) < X ! (i * C + r))"

text \<open>The inner loop of \<open>argmax\<close> on row \<open>i\<close> after \<open>n\<close> iterations: the pair \<open>(max_idx, max)\<close>.\<close>

definition argmax_row :: "('a::linorder) list \<Rightarrow> nat \<Rightarrow> nat \<Rightarrow> nat \<Rightarrow> nat \<times> 'a" where
  "argmax_row X C i n =
     fold (\<lambda>j (max_idx, max). let elem = X ! (i * C + j)
                               in if elem > max then (j, elem) else (max_idx, max))
       [0..<n] (0, X ! (i * C))"

text \<open>The cell of the fully-connected contract: row \<open>i\<close> of \<open>X\<close> (\<open>K\<close> columns) times column \<open>j\<close> of
  \<open>W\<close> (\<open>J\<close> columns).\<close>

definition dense_cell :: "('a::linordered_field) list \<Rightarrow> nat \<Rightarrow> 'a list \<Rightarrow> nat \<Rightarrow> nat \<Rightarrow> nat \<Rightarrow> 'a" where
  "dense_cell X K W J i j = (\<Sum>k<K. X ! (i * K + k) * W ! (k * J + j))"

text \<open>Uninitialised memory that holds the value \<open>v\<close> everywhere, for concrete runs.\<close>

definition const_conv_uninit :: "'a \<Rightarrow> 'a conv_uninit" where
  "const_conv_uninit v =
    \<lparr>host_X_unrolled = (\<lambda>_. v), dev_W_unrolled = (\<lambda>_. v), dev_W = (\<lambda>_. v),
     dev_X_unrolled = (\<lambda>_. v), dev_Y_unrolled = (\<lambda>_. v), dev_Y = (\<lambda>_. v),
     shared_mem = (\<lambda>_ _. \<lparr>Ads = (\<lambda>_ _. v), Bds = (\<lambda>_ _. v)\<rparr>)\<rparr>"

definition const_fwd_uninit :: "'a \<Rightarrow> 'a fwd_uninit" where
  "const_fwd_uninit v =
    \<lparr>conv1_uninit = const_conv_uninit v, conv2_uninit = const_conv_uninit v,
     conv1Output0 = (\<lambda>_. v), conv2Output0 = (\<lambda>_. v),
     deviceInputPool1_0 = (\<lambda>_. v), deviceOutputPool1_0 = (\<lambda>_. v),
     deviceInputPool2_0 = (\<lambda>_. v), deviceOutputPool2_0 = (\<lambda>_. v)\<rparr>"

text \<open>The cell of the matrix product: row \<open>i\<close> of \<open>A\<close> times column \<open>j\<close> of \<open>B\<close>, over the
  contraction indices that exist in both operands.\<close>

definition mm_cell ::
  "('a::linordered_field) list \<Rightarrow> 'a list \<Rightarrow> nat \<Rightarrow> nat \<Rightarrow> nat \<Rightarrow> nat \<Rightarrow> nat \<Rightarrow> 'a" where
  "mm_cell A B numAColumns numBRows numBColumns i j =
    (\<Sum>k<min numAColumns numBRows. A ! (i * numAColumns + k) * B ! (k * numBColumns + j))"

text \<open>One term of that dot product, zero outside the operands.\<close>

definition mm_part ::
  "('a::linordered_field) list \<Rightarrow> 'a list \<Rightarrow> nat \<Rightarrow> nat \<Rightarrow> nat \<Rightarrow> nat \<Rightarrow> nat \<Rightarrow> nat \<Rightarrow> 'a" where
  "mm_part A B nA nB nBc i j k =
    (if k < nA \<and> k < nB then A ! (i * nA + k) * B ! (k * nBc + j) else 0)"

text \<open>What the kernel stores at offset \<open>k\<close> of the output buffer, and the cells one thread
  stores to.\<close>

definition mm_out ::
  "('a::linordered_field) list \<Rightarrow> 'a list \<Rightarrow> nat \<Rightarrow> nat \<Rightarrow> nat \<Rightarrow> nat \<Rightarrow> nat \<Rightarrow> nat \<Rightarrow> 'a" where
  "mm_out A B Cbase nA nB nBc nCc k =
     max 0 (mm_cell A B nA nB nBc ((k - Cbase) div nCc) ((k - Cbase) mod nCc))"

definition mm_block_cells :: "nat \<Rightarrow> nat \<Rightarrow> nat \<Rightarrow> nat \<times> nat \<Rightarrow> nat \<times> nat \<Rightarrow> nat set" where
  "mm_block_cells Cbase nCr nCc blockIdx threadIdx =
    (if snd blockIdx * TILE_WIDTH + fst threadIdx < nCr
        \<and> fst blockIdx * TILE_WIDTH + snd threadIdx < nCc
     then {Cbase + ((snd blockIdx * TILE_WIDTH + fst threadIdx) * nCc
                    + (fst blockIdx * TILE_WIDTH + snd threadIdx))}
     else {})"

text \<open>The offset in the filter tensor that \<open>unrollFilters\<close> copies to offset \<open>k\<close> of the
  unrolled filter matrix, and the offset in the input tensor that \<open>unroll\<close> copies to offset
  \<open>k\<close> of the unrolled input matrix of sample \<open>n\<close>.\<close>

definition filter_src :: "nat \<Rightarrow> nat \<Rightarrow> nat \<Rightarrow> nat \<Rightarrow> nat" where
  "filter_src C M K k =
    (let q = k mod K; p = (k div K) mod K; c = (k div K div K) mod C; m = k div K div K div C
     in ((p * K + q) * C + c) * M + m)"

definition unroll_src :: "nat \<Rightarrow> nat \<Rightarrow> nat \<Rightarrow> nat \<Rightarrow> nat \<Rightarrow> nat \<Rightarrow> nat" where
  "unroll_src C H W K n k =
    (let H_out = H + 1 - K; W_out = W + 1 - K; H_unroll = H_out * W_out;
         row = k div H_unroll; col = k mod H_unroll;
         q = row mod K; p = (row div K) mod K; c = row div K div K;
         h = col div W_out; w = col mod W_out
     in ((n * H + (h + p)) * W + (w + q)) * C + c)"

text \<open>The unrolled input matrix of sample \<open>n\<close>, and what the loop over the samples leaves at
  offset \<open>k\<close> of the unrolled output.\<close>

definition unrolled_input :: "nat \<Rightarrow> nat \<Rightarrow> nat \<Rightarrow> nat \<Rightarrow> nat \<Rightarrow> 'a list \<Rightarrow> 'a list" where
  "unrolled_input C H W K n X =
    map (\<lambda>k. X ! unroll_src C H W K n k) [0..<C * K * K * ((H + 1 - K) * (W + 1 - K))]"

definition unrolled_out ::
  "('a::linordered_field) list \<Rightarrow> nat \<Rightarrow> nat \<Rightarrow> nat \<Rightarrow> nat \<Rightarrow> nat \<Rightarrow> 'a list \<Rightarrow> nat \<Rightarrow> 'a" where
  "unrolled_out Wu M C H W K X k =
    (let H_unroll = (H + 1 - K) * (W + 1 - K) in
     max 0 (mm_cell Wu (unrolled_input C H W K (k div H_unroll div M) X) (C * K * K) (C * K * K)
              H_unroll (k div H_unroll mod M) (k mod H_unroll)))"

text \<open>What the average-pool kernel stores at offset \<open>k\<close> of the output, and the cells one
  thread of the kernel stores to.\<close>

definition pool_out :: "('a::linordered_field) list \<Rightarrow> nat list \<Rightarrow> nat list \<Rightarrow> nat \<Rightarrow> nat \<Rightarrow> 'a" where
  "pool_out X xdims ydims f k =
    pool_cell X xdims f (k div ydims ! 3 div ydims ! 2 div ydims ! 1)
      (k div ydims ! 3 div ydims ! 2 mod ydims ! 1) (k div ydims ! 3 mod ydims ! 2)
      (k mod ydims ! 3)"

definition pool_thread_cells :: "nat list \<Rightarrow> nat \<times> nat \<times> nat \<Rightarrow> nat \<times> nat \<Rightarrow> nat set" where
  "pool_thread_cells ydims blockIdx threadIdx =
    (let (bx, by, bz) = blockIdx; (ty, tx) = threadIdx;
         h = (bz div ((ydims ! 2 - 1) div TILE_WIDTH + 1)) * TILE_WIDTH + ty;
         w = (bz mod ((ydims ! 1 - 1) div TILE_WIDTH + 1)) * TILE_WIDTH + tx
     in if w < ydims ! 2 \<and> h < ydims ! 1
        then {((bx * ydims ! 1 + h) * ydims ! 2 + w) * ydims ! 3 + by} else {})"

section \<open>Accumulating loops\<close>

lemma acc_byI:
  assumes "\<And>Y. length (F Y) = length Y"
    and "\<And>Y k. k < length Y \<Longrightarrow> F Y ! k = Y ! k + d k"
  shows "acc_by F d"
  using assms by (simp add: acc_by_def)

lemma acc_by_length: "acc_by F d \<Longrightarrow> length (F Y) = length Y"
  by (simp add: acc_by_def)

lemma acc_by_nth: "acc_by F d \<Longrightarrow> k < length Y \<Longrightarrow> F Y ! k = Y ! k + d k"
  by (simp add: acc_by_def)

lemma acc_by_point: "acc_by (\<lambda>Y. Y[off := Y ! off + a]) (\<lambda>k. if k = off then a else 0)"
  by (rule acc_byI) (simp_all add: nth_list_update)

lemma acc_by_fold:
  assumes "\<And>t. t < n \<Longrightarrow> acc_by (F t) (d t)"
  shows "acc_by (fold F [0..<n]) (\<lambda>k. \<Sum>t<n. d t k)"
  using assms
proof (induction n)
  case 0
  show ?case by (rule acc_byI) simp_all
next
  case (Suc n)
  have prev: "acc_by (fold F [0..<n]) (\<lambda>k. \<Sum>t<n. d t k)"
    using Suc by simp
  have last: "acc_by (F n) (d n)"
    using Suc.prems by simp
  show ?case
  proof (rule acc_byI)
    fix Y :: "'a list"
    show "length (fold F [0..<Suc n] Y) = length Y"
      using acc_by_length [OF prev] acc_by_length [OF last] by simp
  next
    fix Y :: "'a list" and k
    assume k: "k < length Y"
    then have "k < length (fold F [0..<n] Y)"
      using acc_by_length [OF prev] by simp
    then show "fold F [0..<Suc n] Y ! k = Y ! k + (\<Sum>t<Suc n. d t k)"
      using acc_by_nth [OF last] acc_by_nth [OF prev k] by (simp add: add.assoc)
  qed
qed

lemma acc_fixed:
  "fold (\<lambda>t Y. Y[off := Y ! off + a t]) [0..<n] Y = Y[off := Y ! off + (\<Sum>t<n. a t)]"
proof (induction n)
  case 0
  show ?case by simp
next
  case (Suc n)
  show ?case
  proof (cases "off < length Y")
    case True
    then show ?thesis using Suc by (simp add: add.assoc)
  next
    case False
    then show ?thesis using Suc by (simp add: list_update_beyond)
  qed
qed

lemma row_major_inj2:
  fixes i j i' j' B :: nat
  assumes "j < B" "j' < B"
  shows "i * B + j = i' * B + j' \<longleftrightarrow> i = i' \<and> j = j'"
proof
  assume eq: "i * B + j = i' * B + j'"
  have "(i * B + j) div B = i" "(i' * B + j') div B = i'" using assms by simp_all
  then have "i = i'" using eq by simp
  then show "i = i' \<and> j = j'" using eq by simp
qed simp

lemma row_major_inj4:
  fixes n h w m n' h' w' m' H W M :: nat
  assumes "h < H" "h' < H" "w < W" "w' < W" "m < M" "m' < M"
  shows "((n * H + h) * W + w) * M + m = ((n' * H + h') * W + w') * M + m'
         \<longleftrightarrow> n = n' \<and> h = h' \<and> w = w' \<and> m = m'"
  using assms by (simp add: row_major_inj2)

lemma row_major_less:
  fixes i j A B :: nat
  assumes "i < A" "j < B"
  shows "i * B + j < A * B"
proof -
  have "i * B + j < i * B + B" using assms by simp
  also have "\<dots> = Suc i * B" by simp
  also have "\<dots> \<le> A * B" using assms by (intro mult_le_mono1) simp
  finally show ?thesis .
qed

lemma row_major_less4:
  fixes n h w m N H W M :: nat
  assumes "n < N" "h < H" "w < W" "m < M"
  shows "((n * H + h) * W + w) * M + m < N * H * W * M"
  using assms by (intro row_major_less) 

lemma row_major_delta:
  fixes f :: "nat \<Rightarrow> nat \<Rightarrow> nat \<Rightarrow> nat \<Rightarrow> 'a::linordered_field"
  assumes "n < N" "h0 < H" "w0 < W" "m0 < M"
  shows "(\<Sum>i<N. \<Sum>m<M. \<Sum>w<W. \<Sum>h<H.
            if ((n * H + h0) * W + w0) * M + m0 = ((i * H + h) * W + w) * M + m
            then f i h w m else 0) = f n h0 w0 m0"
proof -
  have "(\<Sum>i<N. \<Sum>m<M. \<Sum>w<W. \<Sum>h<H.
            if ((n * H + h0) * W + w0) * M + m0 = ((i * H + h) * W + w) * M + m
            then f i h w m else 0)
      = (\<Sum>i<N. \<Sum>m<M. \<Sum>w<W. \<Sum>h<H.
            if h = h0 then if w = w0 then if m = m0 then if i = n then f i h w m else 0 else 0 else 0 else 0)"
    using assms by (intro sum.cong refl) (auto simp add: row_major_inj4)
  also have "\<dots> = f n h0 w0 m0"
    using assms by (simp add: sum.delta)
  finally show ?thesis .
qed

lemma off4:
  fixes a b c d B C D :: nat
  shows "a * B * C * D + b * C * D + c * D + d = ((a * B + b) * C + c) * D + d"
  by (simp add: algebra_simps)

lemma conv_forward_valid_acc:
  "acc_by (\<lambda>Y. conv_forward_valid X xdims W wdims Y ydims)
     (\<lambda>k. \<Sum>i<ydims ! 0. \<Sum>m<ydims ! 3. \<Sum>w<ydims ! 2. \<Sum>h<ydims ! 1.
        if k = ((i * ydims ! 1 + h) * ydims ! 2 + w) * ydims ! 3 + m
        then conv_cell X xdims W wdims i h w m else 0)"
  unfolding conv_forward_valid_def Let_def off4 acc_fixed conv_cell_def
  by (intro acc_by_fold acc_by_point)

lemma average_pool_acc:
  "acc_by (\<lambda>Y. average_pool X xdims f Y ydims)
     (\<lambda>k. \<Sum>i<ydims ! 0. \<Sum>m<ydims ! 3. \<Sum>w<ydims ! 2. \<Sum>h<ydims ! 1.
        if k = ((i * ydims ! 1 + h) * ydims ! 2 + w) * ydims ! 3 + m
        then pool_cell X xdims f i h w m else 0)"
proof -
  have cell: "pool_cell X xdims f i h w m =
      (\<Sum>p<f. \<Sum>q<f. X ! (((i * xdims ! 1 + (f * h + p)) * xdims ! 2 + (f * w + q)) * xdims ! 3 + m)
          / (1 * of_nat f * of_nat f))" for i h w m
    by (simp add: pool_cell_def sum_divide_distrib power2_eq_square)
  show ?thesis
    unfolding average_pool_def Let_def off4 acc_fixed cell
    by (intro acc_by_fold acc_by_point)
qed

lemma conv_forward_valid_nth:
  assumes "length Y0 = N * H' * W' * M" "n < N" "h < H'" "w < W'" "m < M"
  shows "conv_forward_valid X xdims Wt wdims Y0 [N, H', W', M] ! (((n * H' + h) * W' + w) * M + m)
       = Y0 ! (((n * H' + h) * W' + w) * M + m) + conv_cell X xdims Wt wdims n h w m"
proof -
  have "((n * H' + h) * W' + w) * M + m < length Y0"
    using assms by (simp add: row_major_less4)
  then show ?thesis
    using assms row_major_delta [of n N h H' w W' m M "conv_cell X xdims Wt wdims"]
    by (simp add: acc_by_nth [OF conv_forward_valid_acc])
qed

lemma average_pool_nth:
  assumes "length Y0 = N * H' * W' * M" "n < N" "h < H'" "w < W'" "m < M"
  shows "average_pool X xdims f Y0 [N, H', W', M] ! (((n * H' + h) * W' + w) * M + m)
       = Y0 ! (((n * H' + h) * W' + w) * M + m) + pool_cell X xdims f n h w m"
proof -
  have "((n * H' + h) * W' + w) * M + m < length Y0"
    using assms by (simp add: row_major_less4)
  then show ?thesis
    using assms row_major_delta [of n N h H' w W' m M "pool_cell X xdims f"]
    by (simp add: acc_by_nth [OF average_pool_acc])
qed

lemma zeros_nth: "k < prod_list dims \<Longrightarrow> zeros dims ! k = 0"
  by (simp add: zeros_def)

lemma length_zeros: "length (zeros dims) = prod_list dims"
  by (simp add: zeros_def)

lemma conv_forward_valid_zeros_nth:
  assumes "n < N" "h < H'" "w < W'" "m < M"
  shows "conv_forward_valid X xdims Wt wdims (zeros [N, H', W', M]) [N, H', W', M]
           ! (((n * H' + h) * W' + w) * M + m) = conv_cell X xdims Wt wdims n h w m"
proof -
  have len: "length (zeros [N, H', W', M] :: 'a list) = N * H' * W' * M"
    by (simp add: length_zeros mult.assoc)
  have "((n * H' + h) * W' + w) * M + m < prod_list [N, H', W', M]"
    using row_major_less4 [OF assms] by (simp add: mult.assoc)
  then have "(zeros [N, H', W', M] :: 'a list) ! (((n * H' + h) * W' + w) * M + m) = 0"
    by (rule zeros_nth)
  then show ?thesis
    using conv_forward_valid_nth [OF len assms, of X xdims Wt wdims] by simp
qed


text \<open>On tensors of the shapes of the contract every offset the direct-form convolution
  uses lies inside its buffer.\<close>

lemma conv_offsets_in_range:
  fixes N H W C K M n h w m p q c :: nat
  assumes "K \<le> H" "K \<le> W" "n < N" "h < H - K + 1" "w < W - K + 1" "m < M"
    and "p < K" "q < K" "c < C"
  shows "((n * (H - K + 1) + h) * (W - K + 1) + w) * M + m < N * (H - K + 1) * (W - K + 1) * M"
    and "((n * H + (h + p)) * W + (w + q)) * C + c < N * H * W * C"
    and "((p * K + q) * C + c) * M + m < K * K * C * M"
proof -
  have "h + p < H" using assms(1,4,7) by arith
  moreover have "w + q < W" using assms(2,5,8) by arith
  ultimately show "((n * H + (h + p)) * W + (w + q)) * C + c < N * H * W * C"
    using assms(3,9) by (simp add: row_major_less4)
  show "((n * (H - K + 1) + h) * (W - K + 1) + w) * M + m < N * (H - K + 1) * (W - K + 1) * M"
    using assms(3-6) by (rule row_major_less4)
  show "((p * K + q) * C + c) * M + m < K * K * C * M"
    using assms(7,8,9,6) by (rule row_major_less4)
qed
lemma row_major_decode2:
  fixes k A B :: nat
  assumes "k < A * B"
  shows "\<exists>i<A. \<exists>j<B. k = i * B + j"
proof -
  have B: "0 < B" using assms by (cases B) simp_all
  have "k div B < A" using assms by (simp add: less_mult_imp_div_less)
  moreover have "k mod B < B" using B by simp
  moreover have "k = (k div B) * B + k mod B" by simp
  ultimately show ?thesis by blast
qed

lemma row_major_decode4:
  fixes k N H W M :: nat
  assumes "k < N * H * W * M"
  shows "\<exists>n<N. \<exists>h<H. \<exists>w<W. \<exists>m<M. k = ((n * H + h) * W + w) * M + m"
proof -
  obtain a m where a: "a < N * H * W" and m: "m < M" and k: "k = a * M + m"
    using row_major_decode2 [OF assms] by blast
  obtain b w where b: "b < N * H" and w: "w < W" and a': "a = b * W + w"
    using row_major_decode2 [OF a] by blast
  obtain n h where n: "n < N" and h: "h < H" and b': "b = n * H + h"
    using row_major_decode2 [OF b] by blast
  show ?thesis using n h w m k a' b' by blast
qed

lemma cells_zero_iff:
  fixes Y0 :: "'a::linordered_field list"
  assumes "length Y0 = N * H' * W' * M"
  shows "(\<forall>n<N. \<forall>h<H'. \<forall>w<W'. \<forall>m<M. Y0 ! (((n * H' + h) * W' + w) * M + m) = 0)
         \<longleftrightarrow> Y0 = zeros [N, H', W', M]"
proof
  assume cells: "\<forall>n<N. \<forall>h<H'. \<forall>w<W'. \<forall>m<M. Y0 ! (((n * H' + h) * W' + w) * M + m) = 0"
  show "Y0 = zeros [N, H', W', M]"
  proof (rule nth_equalityI)
    show "length Y0 = length (zeros [N, H', W', M] :: 'a list)"
      using assms by (simp add: length_zeros mult.assoc)
  next
    fix k assume "k < length Y0"
    then have k: "k < N * H' * W' * M" using assms by simp
    then obtain n h w m where "n < N" "h < H'" "w < W'" "m < M"
      "k = ((n * H' + h) * W' + w) * M + m"
      using row_major_decode4 by blast
    then have "Y0 ! k = 0" using cells by simp
    moreover have "(zeros [N, H', W', M] :: 'a list) ! k = 0"
      using k by (simp add: zeros_nth mult.assoc)
    ultimately show "Y0 ! k = zeros [N, H', W', M] ! k" by simp
  qed
next
  assume "Y0 = zeros [N, H', W', M]"
  then show "\<forall>n<N. \<forall>h<H'. \<forall>w<W'. \<forall>m<M. Y0 ! (((n * H' + h) * W' + w) * M + m) = 0"
    using row_major_less4 [of _ N _ H' _ W' _ M] by (simp add: zeros_nth mult.assoc)
qed

section \<open>Overwriting loops\<close>

lemma writesI:
  assumes "\<And>Y. length (F Y) = length Y"
    and "\<And>Y k. k < length Y \<Longrightarrow> F Y ! k = (if k \<in> S then g k else Y ! k)"
  shows "writes F S g"
  using assms by (simp add: writes_def)

lemma writes_length: "writes F S g \<Longrightarrow> length (F Y) = length Y"
  by (simp add: writes_def)

lemma writes_nth: "writes F S g \<Longrightarrow> k < length Y \<Longrightarrow> F Y ! k = (if k \<in> S then g k else Y ! k)"
  by (simp add: writes_def)

lemma writes_id: "writes (\<lambda>Y. Y) {} g"
  by (rule writesI) simp_all

lemma writes_point: "g off = a \<Longrightarrow> writes (\<lambda>Y. Y[off := a]) {off} g"
  by (rule writesI) (auto simp add: nth_list_update)

lemma writes_fold:
  fixes F :: "'t \<Rightarrow> 'a list \<Rightarrow> 'a list"
  assumes "\<And>t. t \<in> set ts \<Longrightarrow> writes (F t) (S t) g"
  shows "writes (fold F ts) (\<Union>t\<in>set ts. S t) g"
  using assms
proof (induction ts rule: rev_induct)
  case Nil
  show ?case by (simp add: writes_id)
next
  case (snoc t ts)
  have prev: "writes (fold F ts) (\<Union>t\<in>set ts. S t) g"
    using snoc by simp
  have last: "writes (F t) (S t) g"
    using snoc.prems by simp
  show ?case
  proof (rule writesI)
    fix Y :: "'a list"
    show "length (fold F (ts @ [t]) Y) = length Y"
      using writes_length [OF prev] writes_length [OF last] by simp
  next
    fix Y :: "'a list" and k
    assume k: "k < length Y"
    then have "k < length (fold F ts Y)"
      using writes_length [OF prev] by simp
    then show "fold F (ts @ [t]) Y ! k = (if k \<in> (\<Union>t\<in>set (ts @ [t]). S t) then g k else Y ! k)"
      using writes_nth [OF last] writes_nth [OF prev k] by auto
  qed
qed

lemma writes_fold_upt:
  assumes "\<And>t. t < n \<Longrightarrow> writes (F t) (S t) g"
  shows "writes (fold F [0..<n]) (\<Union>t<n. S t) g"
proof -
  have "writes (fold F [0..<n]) (\<Union>t\<in>set [0..<n]. S t) g"
    using assms by (intro writes_fold) simp
  moreover have "set [0..<n] = {..<n}" by auto
  ultimately show ?thesis by simp
qed

section \<open>Argmax\<close>

lemma argmax_row_Suc:
  "argmax_row X C i (Suc n) =
     (let (mi, mx) = argmax_row X C i n
      in if X ! (i * C + n) > mx then (n, X ! (i * C + n)) else (mi, mx))"
  by (simp add: argmax_row_def Let_def)

lemma argmax_row_inv:
  "snd (argmax_row X C i n) = X ! (i * C + fst (argmax_row X C i n))
   \<and> fst (argmax_row X C i n) < max n 1
   \<and> (\<forall>j<n. X ! (i * C + j) \<le> snd (argmax_row X C i n))
   \<and> (\<forall>j<fst (argmax_row X C i n). X ! (i * C + j) < snd (argmax_row X C i n))"
proof (induction n)
  case 0
  show ?case by (simp add: argmax_row_def)
next
  case (Suc n)
  obtain mi mx where st: "argmax_row X C i n = (mi, mx)" by (cases "argmax_row X C i n")
  have IH: "mx = X ! (i * C + mi) \<and> mi < max n 1
      \<and> (\<forall>j<n. X ! (i * C + j) \<le> mx) \<and> (\<forall>j<mi. X ! (i * C + j) < mx)"
    using Suc.IH unfolding st fst_conv snd_conv .
  then have inv1: "mx = X ! (i * C + mi)" and inv2: "mi < max n 1"
    and inv3: "\<And>j. j < n \<Longrightarrow> X ! (i * C + j) \<le> mx"
    and inv4: "\<And>j. j < mi \<Longrightarrow> X ! (i * C + j) < mx"
    by blast+
  show ?case
  proof (cases "X ! (i * C + n) > mx")
    case True
    have res: "argmax_row X C i (Suc n) = (n, X ! (i * C + n))"
      using st True by (simp add: argmax_row_Suc)
    have "X ! (i * C + j) \<le> X ! (i * C + n)" if "j < Suc n" for j
    proof (cases "j = n")
      case False
      then have "X ! (i * C + j) \<le> mx" using that inv3 by simp
      then show ?thesis using True by simp
    qed simp
    moreover have "X ! (i * C + j) < X ! (i * C + n)" if "j < n" for j
      using inv3 [OF that] True by simp
    ultimately show ?thesis unfolding res by simp
  next
    case False
    have res: "argmax_row X C i (Suc n) = (mi, mx)"
      using st False by (simp add: argmax_row_Suc)
    have "X ! (i * C + j) \<le> mx" if "j < Suc n" for j
    proof (cases "j = n")
      case True
      then show ?thesis using False by simp
    next
      case False
      then show ?thesis using that inv3 by simp
    qed
    moreover have "mi < max (Suc n) 1" using inv2 by (simp add: max_def split: if_splits)
    ultimately show ?thesis unfolding res using inv1 inv4 by simp
  qed
qed

lemma argmax_row_first_max:
  assumes "1 \<le> C"
  shows "first_max_index X C i (fst (argmax_row X C i C))"
proof -
  note inv = argmax_row_inv [of X C i C]
  have "fst (argmax_row X C i C) < C" using inv assms by (simp add: max_def)
  moreover have "\<forall>j<C. X ! (i * C + j) \<le> X ! (i * C + fst (argmax_row X C i C))"
    using inv by metis
  moreover have "\<forall>j<fst (argmax_row X C i C). X ! (i * C + j) < X ! (i * C + fst (argmax_row X C i C))"
    using inv by metis
  ultimately show ?thesis by (simp add: first_max_index_def)
qed

lemma argmax_unfold:
  "argmax X xdims Y =
     fold (\<lambda>i Y. Y[i := fst (argmax_row X (xdims ! 1) i (xdims ! 1))]) [0..<xdims ! 0] Y"
  by (simp add: argmax_def argmax_row_def Let_def case_prod_beta)

lemma argmax_writes:
  "writes (argmax X xdims) (\<Union>i<xdims ! 0. {i}) (\<lambda>i. fst (argmax_row X (xdims ! 1) i (xdims ! 1)))"
proof -
  have "writes (fold (\<lambda>i Y. Y[i := fst (argmax_row X (xdims ! 1) i (xdims ! 1))]) [0..<xdims ! 0])
     (\<Union>i<xdims ! 0. {i}) (\<lambda>i. fst (argmax_row X (xdims ! 1) i (xdims ! 1)))"
    by (intro writes_fold_upt writes_point refl)
  then show ?thesis by (simp add: argmax_unfold [abs_def])
qed

lemma argmax_nth:
  assumes "i < R" "length Y = R"
  shows "argmax X [R, C] Y ! i = fst (argmax_row X C i C)"
  using writes_nth [OF argmax_writes, of i Y X "[R, C]"] assms by simp

section \<open>Fully connected layer\<close>

lemma fold_sum_upt:
  fixes a :: "nat \<Rightarrow> 'a::linordered_field"
  shows "fold (\<lambda>k sum. sum + a k) [0..<n] s = s + (\<Sum>k<n. a k)"
  by (induction n) (simp_all add: add.assoc)

lemma fully_forward_seq_writes:
  "writes (\<lambda>Y. fully_forward_seq X xdims W wdims Y ydims)
     (\<Union>i<xdims ! 0. \<Union>j<wdims ! 1. {i * wdims ! 1 + j})
     (\<lambda>k. dense_cell X (xdims ! 1) W (wdims ! 1) (k div wdims ! 1) (k mod wdims ! 1))"
  unfolding fully_forward_seq_def Let_def fold_sum_upt
  by (intro writes_fold_upt writes_point) (simp add: dense_cell_def)

lemma fully_forward_cuda_writes:
  "writes (\<lambda>Y. fully_forward_cuda X xdims W wdims Y ydims)
     (\<Union>i<xdims ! 0. \<Union>j<wdims ! 1. {i * wdims ! 1 + j})
     (\<lambda>k. max 0 (dense_cell X (xdims ! 1) W (wdims ! 1) (k div wdims ! 1) (k mod wdims ! 1)))"
  unfolding fully_forward_cuda_def Let_def fold_sum_upt
  by (intro writes_fold_upt writes_point) (simp add: dense_cell_def max_def not_less)

lemma dense_offsets:
  fixes R J :: nat
  shows "(\<Union>i<R. \<Union>j<J. {i * J + j}) = {..<R * J}"
proof (intro set_eqI iffI)
  fix k assume "k \<in> (\<Union>i<R. \<Union>j<J. {i * J + j})"
  then show "k \<in> {..<R * J}" by (auto simp add: row_major_less)
next
  fix k assume "k \<in> {..<R * J}"
  then have "k < R * J" by simp
  then obtain i j where "i < R" "j < J" "k = i * J + j"
    using row_major_decode2 by blast
  then show "k \<in> (\<Union>i<R. \<Union>j<J. {i * J + j})" by auto
qed

lemma fully_forward_seq_nth:
  assumes "length Y = R * J" "i < R" "j < J"
  shows "fully_forward_seq X [R, K] W [K, J] Y ydims ! (i * J + j) = dense_cell X K W J i j"
proof -
  have "i * J + j < length Y" using assms by (simp add: row_major_less)
  then show ?thesis
    using writes_nth [OF fully_forward_seq_writes, of "i * J + j" Y X "[R, K]" W "[K, J]" ydims] assms
    by (simp add: dense_offsets row_major_less)
qed

lemma fully_forward_cuda_nth:
  assumes "length Y = R * J" "i < R" "j < J"
  shows "fully_forward_cuda X [R, K] W [K, J] Y ydims ! (i * J + j) = max 0 (dense_cell X K W J i j)"
proof -
  have "i * J + j < length Y" using assms by (simp add: row_major_less)
  then show ?thesis
    using writes_nth [OF fully_forward_cuda_writes, of "i * J + j" Y X "[R, K]" W "[K, J]" ydims] assms
    by (simp add: dense_offsets row_major_less)
qed

lemma dense_cell_add:
  assumes "length W1 = K * J" "length W2 = K * J" "j < J"
  shows "dense_cell X K (map2 (+) W1 W2) J i j = dense_cell X K W1 J i j + dense_cell X K W2 J i j"
proof -
  have "map2 (+) W1 W2 ! (k * J + j) = W1 ! (k * J + j) + W2 ! (k * J + j)" if "k < K" for k
    using assms that by (simp add: row_major_less)
  then show ?thesis
    by (simp add: dense_cell_def distrib_left sum.distrib)
qed

lemma fully_forward_seq_linear:
  assumes W1: "length W1 = K * J" and W2: "length W2 = K * J" and Y: "length Y = R * J"
  shows "fully_forward_seq X [R, K] (map2 (+) W1 W2) [K, J] Y ydims
       = map2 (+) (fully_forward_seq X [R, K] W1 [K, J] Y ydims)
                  (fully_forward_seq X [R, K] W2 [K, J] Y ydims)"
proof (rule nth_equalityI)
  show "length (fully_forward_seq X [R, K] (map2 (+) W1 W2) [K, J] Y ydims)
      = length (map2 (+) (fully_forward_seq X [R, K] W1 [K, J] Y ydims)
                  (fully_forward_seq X [R, K] W2 [K, J] Y ydims))"
    by (simp add: writes_length [OF fully_forward_seq_writes])
next
  fix k assume "k < length (fully_forward_seq X [R, K] (map2 (+) W1 W2) [K, J] Y ydims)"
  then have k: "k < R * J"
    using Y by (simp add: writes_length [OF fully_forward_seq_writes])
  then obtain i j where ij: "i < R" "j < J" "k = i * J + j"
    using row_major_decode2 by blast
  have "k < length (fully_forward_seq X [R, K] W1 [K, J] Y ydims)"
    "k < length (fully_forward_seq X [R, K] W2 [K, J] Y ydims)"
    using k Y by (simp_all add: writes_length [OF fully_forward_seq_writes])
  then show "fully_forward_seq X [R, K] (map2 (+) W1 W2) [K, J] Y ydims ! k
      = map2 (+) (fully_forward_seq X [R, K] W1 [K, J] Y ydims)
                  (fully_forward_seq X [R, K] W2 [K, J] Y ydims) ! k"
    using ij by (simp add: fully_forward_seq_nth [OF Y] dense_cell_add [OF W1 W2])
qed

lemma forward_operation_dims_eq:
  "forward_operation_dims N =
     \<lparr>adims = [N, 24, 24, 32], bdims = [N, 12, 12, 32], cdims = [N, 8, 8, 64],
      ddims = [N, 4, 4, 64], ddims2 = [N, 1024], edims = [N, 128], fdims = [N, 10]\<rparr>"
  by (simp add: forward_operation_dims_def xdims_of_def NUM_ROWS_def NUM_COLS_def
      NUM_CHANNELS_def conv1dims_def conv2dims_def fc1dims_def fc2dims_def pool_size_def Let_def)

lemma forward_operation_cuda_f_shape:
  "\<exists>E. forward_operation_cuda_f u N x conv1 conv2 fc1 fc2
     = fully_forward_cuda E [N, 128] fc2 [128, 10] (zeros [N, 10]) [N, 10]"
  unfolding forward_operation_cuda_f_def Let_def forward_operation_dims_eq fc2dims_def
  by (simp del: One_nat_def) blast

section \<open>Loading the test data\<close>

lemma batch_compare:
  fixes d :: "64 word"
  assumes "0 \<le> b" "b < 2 ^ 31"
  shows "d \<noteq> word_of_int b \<longleftrightarrow> uint d \<noteq> b"
proof -
  have "b < 2 ^ 64" using assms(2) by simp
  then have "uint (word_of_int b :: 64 word) = b"
    using assms(1) by (simp add: uint_word_of_int take_bit_int_eq_self)
  then show ?thesis by (metis word_uint_eq_iff)
qed

section \<open>Tiled matrix multiplication\<close>

lemma TILE_WIDTH_pos: "0 < TILE_WIDTH"
  by (simp add: TILE_WIDTH_def)

lemma block_threads_iff: "(ty, tx) \<in> set block_threads \<longleftrightarrow> ty < TILE_WIDTH \<and> tx < TILE_WIDTH"
  by (auto simp add: block_threads_def)

lemma load_fold_Ads:
  "Ads (fold (matrixMultiplyShared_load A B nA nB nBc nCr nCc (bx, by) ph) ts sh) ty tx =
     (if (ty, tx) \<in> set ts \<and> by * TILE_WIDTH + ty < nCr \<and> tx + ph * TILE_WIDTH < nA
      then A ! ((by * TILE_WIDTH + ty) * nA + tx + ph * TILE_WIDTH) else Ads sh ty tx)"
proof (induction ts arbitrary: sh)
  case Nil
  show ?case by simp
next
  case (Cons t ts)
  obtain ty' tx' where t: "t = (ty', tx')" by (cases t)
  show ?case
    unfolding fold_simps Cons.IH t
    by (auto simp add: matrixMultiplyShared_load_def Let_def)
qed

lemma load_fold_Bds:
  "Bds (fold (matrixMultiplyShared_load A B nA nB nBc nCr nCc (bx, by) ph) ts sh) ty tx =
     (if (ty, tx) \<in> set ts \<and> bx * TILE_WIDTH + tx < nCc \<and> ty + ph * TILE_WIDTH < nB
      then B ! ((ty + ph * TILE_WIDTH) * nBc + (bx * TILE_WIDTH + tx)) else Bds sh ty tx)"
proof (induction ts arbitrary: sh)
  case Nil
  show ?case by simp
next
  case (Cons t ts)
  obtain ty' tx' where t: "t = (ty', tx')" by (cases t)
  show ?case
    unfolding fold_simps Cons.IH t
    by (auto simp add: matrixMultiplyShared_load_def Let_def)
qed

lemma fold_guarded_sum:
  fixes a :: "nat \<Rightarrow> 'a::linordered_field"
  shows "fold (\<lambda>d c. if P d then c + a d else c) [0..<n] s = s + (\<Sum>d<n. if P d then a d else 0)"
  by (induction n) (simp_all add: add.assoc)

lemma phase_Cval:
  assumes "ty < TILE_WIDTH" "tx < TILE_WIDTH"
    and "by * TILE_WIDTH + ty < nCr" "bx * TILE_WIDTH + tx < nCc"
  shows "snd (matrixMultiplyShared_phase A B nA nB nBc nCr nCc (bx, by) ph (sh, Cval)) (ty, tx)
       = Cval (ty, tx) + (\<Sum>d<TILE_WIDTH.
           mm_part A B nA nB nBc (by * TILE_WIDTH + ty) (bx * TILE_WIDTH + tx) (d + ph * TILE_WIDTH))"
proof -
  have "snd (matrixMultiplyShared_phase A B nA nB nBc nCr nCc (bx, by) ph (sh, Cval)) (ty, tx)
      = Cval (ty, tx) + (\<Sum>d<TILE_WIDTH.
          if d + ph * TILE_WIDTH < nA \<and> d + ph * TILE_WIDTH < nB
          then Ads (fold (matrixMultiplyShared_load A B nA nB nBc nCr nCc (bx, by) ph)
                      block_threads sh) ty d
               * Bds (fold (matrixMultiplyShared_load A B nA nB nBc nCr nCc (bx, by) ph)
                      block_threads sh) d tx
          else 0)"
    by (simp add: matrixMultiplyShared_phase_def matrixMultiplyShared_dot_def Let_def
        fold_guarded_sum)
  also have "(\<Sum>d<TILE_WIDTH.
          if d + ph * TILE_WIDTH < nA \<and> d + ph * TILE_WIDTH < nB
          then Ads (fold (matrixMultiplyShared_load A B nA nB nBc nCr nCc (bx, by) ph)
                      block_threads sh) ty d
               * Bds (fold (matrixMultiplyShared_load A B nA nB nBc nCr nCc (bx, by) ph)
                      block_threads sh) d tx
          else 0)
     = (\<Sum>d<TILE_WIDTH.
           mm_part A B nA nB nBc (by * TILE_WIDTH + ty) (bx * TILE_WIDTH + tx) (d + ph * TILE_WIDTH))"
    using assms
    by (intro sum.cong refl)
      (simp add: load_fold_Ads load_fold_Bds block_threads_iff mm_part_def add.assoc)
  finally show ?thesis .
qed

lemma phases_Cval:
  assumes "ty < TILE_WIDTH" "tx < TILE_WIDTH"
    and "by * TILE_WIDTH + ty < nCr" "bx * TILE_WIDTH + tx < nCc"
  shows "snd (fold (matrixMultiplyShared_phase A B nA nB nBc nCr nCc (bx, by)) [0..<n] st) (ty, tx)
       = snd st (ty, tx) + (\<Sum>ph<n. \<Sum>d<TILE_WIDTH.
           mm_part A B nA nB nBc (by * TILE_WIDTH + ty) (bx * TILE_WIDTH + tx) (d + ph * TILE_WIDTH))"
proof (induction n)
  case 0
  show ?case by simp
next
  case (Suc n)
  obtain sh Cval where st': "fold (matrixMultiplyShared_phase A B nA nB nBc nCr nCc (bx, by)) [0..<n] st
      = (sh, Cval)"
    by (cases "fold (matrixMultiplyShared_phase A B nA nB nBc nCr nCc (bx, by)) [0..<n] st")
  show ?case
    using Suc st' by (simp add: phase_Cval [OF assms] add.assoc)
qed

lemma sum_tiles:
  fixes g :: "nat \<Rightarrow> 'a::linordered_field"
  shows "(\<Sum>ph<P. \<Sum>d<T. g (d + ph * T)) = (\<Sum>k<P * T. g k)"
proof (induction P)
  case 0
  show ?case by simp
next
  case (Suc P)
  have "(\<Sum>k<Suc P * T. g k) = (\<Sum>k\<in>{0..<P * T}. g k) + (\<Sum>k\<in>{P * T..<P * T + T}. g k)"
    by (simp add: lessThan_atLeast0 sum.atLeastLessThan_concat add.commute)
  also have "(\<Sum>k\<in>{P * T..<P * T + T}. g k) = (\<Sum>d<T. g (d + P * T))"
    using sum.shift_bounds_nat_ivl [of g 0 "P * T" T] by (simp add: lessThan_atLeast0 add.commute)
  finally show ?case using Suc by (simp add: lessThan_atLeast0)
qed

lemma sum_guard_trunc:
  fixes f :: "nat \<Rightarrow> 'a::linordered_field"
  assumes "n \<le> m"
  shows "(\<Sum>k<m. if k < n then f k else 0) = (\<Sum>k<n. f k)"
proof -
  have "sum f {k \<in> {..<m}. k < n} = (\<Sum>k<m. if k < n then f k else 0)"
    by (rule sum.inter_filter) simp
  moreover have "{k \<in> {..<m}. k < n} = {..<n}" using assms by auto
  ultimately show ?thesis by simp
qed

lemma phases_cover: "nA \<le> ((nA - 1) div TILE_WIDTH + 1) * TILE_WIDTH"
  unfolding TILE_WIDTH_def by presburger

lemma block_Cval:
  assumes "ty < TILE_WIDTH" "tx < TILE_WIDTH"
    and "by * TILE_WIDTH + ty < nCr" "bx * TILE_WIDTH + tx < nCc"
  shows "snd (fold (matrixMultiplyShared_phase A B nA nB nBc nCr nCc (bx, by))
                [0..<(nA - 1) div TILE_WIDTH + 1] (sh0, \<lambda>t. 0)) (ty, tx)
       = mm_cell A B nA nB nBc (by * TILE_WIDTH + ty) (bx * TILE_WIDTH + tx)"
proof -
  let ?P = "(nA - 1) div TILE_WIDTH + 1"
  let ?i = "by * TILE_WIDTH + ty" and ?j = "bx * TILE_WIDTH + tx"
  have "min nA nB \<le> ?P * TILE_WIDTH"
    using phases_cover [of nA] by simp
  then have "(\<Sum>k<?P * TILE_WIDTH. if k < min nA nB then A ! (?i * nA + k) * B ! (k * nBc + ?j) else 0)
      = mm_cell A B nA nB nBc ?i ?j"
    unfolding mm_cell_def by (rule sum_guard_trunc)
  moreover have "mm_part A B nA nB nBc ?i ?j
      = (\<lambda>k. if k < min nA nB then A ! (?i * nA + k) * B ! (k * nBc + ?j) else 0)"
    by (auto simp add: mm_part_def fun_eq_iff)
  ultimately have "(\<Sum>k<?P * TILE_WIDTH. mm_part A B nA nB nBc ?i ?j k) = mm_cell A B nA nB nBc ?i ?j"
    by simp
  then show ?thesis
    unfolding phases_Cval [OF assms] sum_tiles by simp
qed

lemma mm_out_cell:
  assumes "j < nCc"
  shows "mm_out A B Cbase nA nB nBc nCc (Cbase + (i * nCc + j)) = max 0 (mm_cell A B nA nB nBc i j)"
  using assms by (simp add: mm_out_def)

lemma store_writes:
  assumes "t \<in> set block_threads"
    and Cval: "\<And>ty tx. ty < TILE_WIDTH \<Longrightarrow> tx < TILE_WIDTH \<Longrightarrow> by * TILE_WIDTH + ty < nCr
      \<Longrightarrow> bx * TILE_WIDTH + tx < nCc
      \<Longrightarrow> Cval (ty, tx) = mm_cell A B nA nB nBc (by * TILE_WIDTH + ty) (bx * TILE_WIDTH + tx)"
  shows "writes (matrixMultiplyShared_store Cbase nCr nCc (bx, by) Cval t)
           (mm_block_cells Cbase nCr nCc (bx, by) t) (mm_out A B Cbase nA nB nBc nCc)"
proof -
  obtain ty tx where t: "t = (ty, tx)" by (cases t)
  have r: "ty < TILE_WIDTH" "tx < TILE_WIDTH"
    using assms(1) by (simp_all add: t block_threads_iff)
  show ?thesis
  proof (cases "by * TILE_WIDTH + ty < nCr \<and> bx * TILE_WIDTH + tx < nCc")
    case True
    then have v: "Cval (ty, tx) = mm_cell A B nA nB nBc (by * TILE_WIDTH + ty) (bx * TILE_WIDTH + tx)"
      using Cval r by simp
    have "writes (\<lambda>C. C[Cbase + ((by * TILE_WIDTH + ty) * nCc + (bx * TILE_WIDTH + tx)) :=
                  (if Cval (ty, tx) < 0 then 0 else Cval (ty, tx))])
            {Cbase + ((by * TILE_WIDTH + ty) * nCc + (bx * TILE_WIDTH + tx))}
            (mm_out A B Cbase nA nB nBc nCc)"
      using True by (intro writes_point) (simp add: mm_out_cell v max_def not_less)
    moreover have "matrixMultiplyShared_store Cbase nCr nCc (bx, by) Cval (ty, tx)
        = (\<lambda>C. C[Cbase + ((by * TILE_WIDTH + ty) * nCc + (bx * TILE_WIDTH + tx)) :=
                  (if Cval (ty, tx) < 0 then 0 else Cval (ty, tx))])"
      using True by (simp add: matrixMultiplyShared_store_def fun_eq_iff Let_def)
    ultimately show ?thesis
      using True by (simp add: mm_block_cells_def t)
  next
    case False
    then have "matrixMultiplyShared_store Cbase nCr nCc (bx, by) Cval (ty, tx) = (\<lambda>C. C)"
      by (auto simp add: matrixMultiplyShared_store_def fun_eq_iff Let_def)
    then show ?thesis
      using False by (auto simp add: mm_block_cells_def t writes_id)
  qed
qed

lemma block_writes:
  "writes (matrixMultiplyShared_block A B Cbase nAr nA nB nBc nCr nCc sh0 (bx, by))
     (\<Union>t\<in>set block_threads. mm_block_cells Cbase nCr nCc (bx, by) t)
     (mm_out A B Cbase nA nB nBc nCc)"
proof -
  let ?Cval = "snd (fold (matrixMultiplyShared_phase A B nA nB nBc nCr nCc (bx, by))
                [0..<(nA - 1) div TILE_WIDTH + 1] (sh0 (bx, by), \<lambda>t. 0))"
  have "matrixMultiplyShared_block A B Cbase nAr nA nB nBc nCr nCc sh0 (bx, by)
      = fold (matrixMultiplyShared_store Cbase nCr nCc (bx, by) ?Cval) block_threads"
    by (simp add: matrixMultiplyShared_block_def case_prod_beta fun_eq_iff)
  moreover have "writes (fold (matrixMultiplyShared_store Cbase nCr nCc (bx, by) ?Cval) block_threads)
     (\<Union>t\<in>set block_threads. mm_block_cells Cbase nCr nCc (bx, by) t)
     (mm_out A B Cbase nA nB nBc nCc)"
    by (intro writes_fold store_writes block_Cval)
  ultimately show ?thesis by simp
qed

lemma mm_cells_covered:
  assumes "nCc \<le> gx * TILE_WIDTH" "nCr \<le> gy * TILE_WIDTH"
  shows "(\<Union>b\<in>set (List.product [0..<gx] [0..<gy]). \<Union>t\<in>set block_threads.
            mm_block_cells Cbase nCr nCc b t)
       = {Cbase + (i * nCc + j) |i j. i < nCr \<and> j < nCc}" (is "?L = ?R")
proof (intro set_eqI iffI)
  fix k assume "k \<in> ?L"
  then show "k \<in> ?R"
    by (auto simp add: mm_block_cells_def split: if_splits)
next
  fix k assume "k \<in> ?R"
  then obtain i j where ij: "i < nCr" "j < nCc" "k = Cbase + (i * nCc + j)" by blast
  let ?by = "i div TILE_WIDTH" and ?ty = "i mod TILE_WIDTH"
  let ?bx = "j div TILE_WIDTH" and ?tx = "j mod TILE_WIDTH"
  have "i < gy * TILE_WIDTH" "j < gx * TILE_WIDTH" using ij assms by simp_all
  then have b: "?by < gy" "?bx < gx"
    by (simp_all add: less_mult_imp_div_less)
  have t: "?ty < TILE_WIDTH" "?tx < TILE_WIDTH"
    using TILE_WIDTH_pos by simp_all
  have "k \<in> mm_block_cells Cbase nCr nCc (?bx, ?by) (?ty, ?tx)"
    using ij by (simp add: mm_block_cells_def)
  moreover have "(?bx, ?by) \<in> set (List.product [0..<gx] [0..<gy])" using b by simp
  moreover have "(?ty, ?tx) \<in> set block_threads" using t by (simp add: block_threads_iff)
  ultimately show "k \<in> ?L" by blast
qed

lemma matrixMultiplyShared_writes:
  assumes "nCc \<le> gx * TILE_WIDTH" "nCr \<le> gy * TILE_WIDTH"
  shows "writes (\<lambda>C. matrixMultiplyShared (gx, gy) sh0 A B C Cbase nAr nA nB nBc nCr nCc)
           {Cbase + (i * nCc + j) |i j. i < nCr \<and> j < nCc} (mm_out A B Cbase nA nB nBc nCc)"
proof -
  have "writes (fold (matrixMultiplyShared_block A B Cbase nAr nA nB nBc nCr nCc sh0)
                 (List.product [0..<gx] [0..<gy]))
          (\<Union>b\<in>set (List.product [0..<gx] [0..<gy]). \<Union>t\<in>set block_threads.
            mm_block_cells Cbase nCr nCc b t) (mm_out A B Cbase nA nB nBc nCc)"
  proof (rule writes_fold)
    fix b assume "b \<in> set (List.product [0..<gx] [0..<gy])"
    obtain bx "by" where "b = (bx, by)" by (cases b)
    then show "writes (matrixMultiplyShared_block A B Cbase nAr nA nB nBc nCr nCc sh0 b)
       (\<Union>t\<in>set block_threads. mm_block_cells Cbase nCr nCc b t) (mm_out A B Cbase nA nB nBc nCc)"
      using block_writes by simp
  qed
  then show ?thesis
    unfolding mm_cells_covered [OF assms] by (simp add: matrixMultiplyShared_def [abs_def])
qed

lemma matrixMultiplyShared_nth:
  assumes "nCc \<le> gx * TILE_WIDTH" "nCr \<le> gy * TILE_WIDTH"
    and "i < nCr" "j < nCc" "Cbase + nCr * nCc \<le> length C"
  shows "matrixMultiplyShared (gx, gy) sh0 A B C Cbase nAr nA nB nBc nCr nCc ! (Cbase + (i * nCc + j))
       = max 0 (mm_cell A B nA nB nBc i j)"
proof -
  have "i * nCc + j < nCr * nCc" using assms by (simp add: row_major_less)
  then have "Cbase + (i * nCc + j) < length C" using assms by simp
  then show ?thesis
    using writes_nth [OF matrixMultiplyShared_writes [OF assms(1,2)], of "Cbase + (i * nCc + j)" C] assms
    by (auto simp add: mm_out_cell)
qed

lemma ceil_div_covers: "n \<le> ceil_div n TILE_WIDTH * TILE_WIDTH"
  unfolding ceil_div_def TILE_WIDTH_def by presburger

section \<open>Unrolling and rerolling\<close>

lemma writes_cong:
  assumes "writes F S g'" "\<And>k. k \<in> S \<Longrightarrow> g' k = g k"
  shows "writes F S g"
  using assms by (simp add: writes_def)

lemma decode_div:
  fixes i j B :: nat
  shows "j < B \<Longrightarrow> (i * B + j) div B = i"
  by simp

lemma decode_mod:
  fixes i j B :: nat
  shows "j < B \<Longrightarrow> (i * B + j) mod B = j"
  by simp

lemma filter_src_cell:
  assumes "c < C" "p < K" "q < K"
  shows "filter_src C M K (((m * C + c) * K + p) * K + q) = ((p * K + q) * C + c) * M + m"
  using assms by (simp add: filter_src_def)

lemma unrollFilters_writes:
  "writes (unrollFilters (C, M) C M K W)
     (\<Union>c<C. \<Union>m<M. \<Union>p<K. \<Union>q<K. {((m * C + c) * K + p) * K + q})
     (\<lambda>k. W ! filter_src C M K k)"
proof -
  have "writes (fold (\<lambda>c. fold (\<lambda>m. fold (\<lambda>p. fold (\<lambda>q W_unroll.
            W_unroll[((m * C + c) * K + p) * K + q := W ! (((p * K + q) * C + c) * M + m)])
            [0..<K]) [0..<K]) [0..<M]) [0..<C])
     (\<Union>c<C. \<Union>m<M. \<Union>p<K. \<Union>q<K. {((m * C + c) * K + p) * K + q})
     (\<lambda>k. W ! filter_src C M K k)"
    by (intro writes_fold_upt writes_point) (simp add: filter_src_cell)
  moreover have "unrollFilters (C, M) C M K W
      = fold (\<lambda>c. fold (\<lambda>m. fold (\<lambda>p. fold (\<lambda>q W_unroll.
            W_unroll[((m * C + c) * K + p) * K + q := W ! (((p * K + q) * C + c) * M + m)])
            [0..<K]) [0..<K]) [0..<M]) [0..<C]"
    unfolding unrollFilters_def [abs_def] unrollFilters_thread_def [abs_def] off4 fst_conv snd_conv
    by (intro fold_cong refl ext) simp
  ultimately show ?thesis by simp
qed

lemma unrollFilters_nth:
  assumes "m < M" "c < C" "p < K" "q < K" "length W_unroll = M * C * K * K"
  shows "unrollFilters (C, M) C M K W W_unroll ! (((m * C + c) * K + p) * K + q)
       = W ! (((p * K + q) * C + c) * M + m)"
proof -
  have "((m * C + c) * K + p) * K + q < length W_unroll"
    using assms row_major_less4 [of m M c C p K q K] by simp
  moreover have "((m * C + c) * K + p) * K + q
      \<in> (\<Union>c<C. \<Union>m<M. \<Union>p<K. \<Union>q<K. {((m * C + c) * K + p) * K + q})"
    using assms by blast
  ultimately show ?thesis
    using writes_nth [OF unrollFilters_writes, of _ W_unroll C M K W] assms
    by (simp add: filter_src_cell)
qed

lemma length_unrollFilters: "length (unrollFilters (C, M) C M K W W_unroll) = length W_unroll"
  by (rule writes_length [OF unrollFilters_writes])

lemma unroll_src_cell:
  assumes "p < K" "q < K" "h < H + 1 - K" "w < W + 1 - K"
  shows "unroll_src C H W K n (((c * K + p) * K + q) * ((H + 1 - K) * (W + 1 - K)) + (h * (W + 1 - K) + w))
       = ((n * H + (h + p)) * W + (w + q)) * C + c"
proof -
  have "h * (W + 1 - K) + w < (H + 1 - K) * (W + 1 - K)"
    using assms by (intro row_major_less)
  then show ?thesis
    using assms unfolding unroll_src_def Let_def by (simp add: decode_div decode_mod)
qed

lemma unroll_writes:
  "writes (unroll C H W K n X)
     (\<Union>c<C. \<Union>p<K. \<Union>q<K. \<Union>h<H + 1 - K. \<Union>w<W + 1 - K.
        {((c * K + p) * K + q) * ((H + 1 - K) * (W + 1 - K)) + (h * (W + 1 - K) + w)})
     (\<lambda>k. X ! unroll_src C H W K n k)"
proof -
  have idx: "c * (K * K) + p * K + q = (c * K + p) * K + q" for c p q
    by (simp add: algebra_simps)
  have "writes (fold (\<lambda>c. fold (\<lambda>p. fold (\<lambda>q. fold (\<lambda>h. fold (\<lambda>w X_unroll.
           X_unroll[((c * K + p) * K + q) * ((H + 1 - K) * (W + 1 - K)) + (h * (W + 1 - K) + w)
                    := X ! (((n * H + (h + p)) * W + (w + q)) * C + c)])
           [0..<W + 1 - K]) [0..<H + 1 - K]) [0..<K]) [0..<K]) [0..<C])
     (\<Union>c<C. \<Union>p<K. \<Union>q<K. \<Union>h<H + 1 - K. \<Union>w<W + 1 - K.
        {((c * K + p) * K + q) * ((H + 1 - K) * (W + 1 - K)) + (h * (W + 1 - K) + w)})
     (\<lambda>k. X ! unroll_src C H W K n k)"
    by (intro writes_fold_upt writes_point) (simp only: unroll_src_cell)
  moreover have "unroll C H W K n X
      = fold (\<lambda>c. fold (\<lambda>p. fold (\<lambda>q. fold (\<lambda>h. fold (\<lambda>w X_unroll.
           X_unroll[((c * K + p) * K + q) * ((H + 1 - K) * (W + 1 - K)) + (h * (W + 1 - K) + w)
                    := X ! (((n * H + (h + p)) * W + (w + q)) * C + c)])
           [0..<W + 1 - K]) [0..<H + 1 - K]) [0..<K]) [0..<K]) [0..<C]"
    unfolding unroll_def [abs_def] Let_def off4 idx ..
  ultimately show ?thesis by simp
qed

lemma length_unroll: "length (unroll C H W K n X X_unroll) = length X_unroll"
  by (rule writes_length [OF unroll_writes])

lemma rerollOutput_writes:
  "writes (rerollOutput (N, M) M N H_out W_out Y_unrolled)
     (\<Union>n<N. \<Union>m<M. \<Union>h<H_out. \<Union>w<W_out. {((n * H_out + h) * W_out + w) * M + m})
     (\<lambda>k. Y_unrolled ! (((k div M div W_out div H_out * M + k mod M) * H_out
                           + k div M div W_out mod H_out) * W_out + k div M mod W_out))"
proof -
  have "writes (fold (\<lambda>n. fold (\<lambda>m. fold (\<lambda>h. fold (\<lambda>w Y.
            Y[((n * H_out + h) * W_out + w) * M + m :=
                Y_unrolled ! (((n * M + m) * H_out + h) * W_out + w)])
            [0..<W_out]) [0..<H_out]) [0..<M]) [0..<N])
     (\<Union>n<N. \<Union>m<M. \<Union>h<H_out. \<Union>w<W_out. {((n * H_out + h) * W_out + w) * M + m})
     (\<lambda>k. Y_unrolled ! (((k div M div W_out div H_out * M + k mod M) * H_out
                           + k div M div W_out mod H_out) * W_out + k div M mod W_out))"
    by (intro writes_fold_upt writes_point) simp
  moreover have "rerollOutput (N, M) M N H_out W_out Y_unrolled
      = fold (\<lambda>n. fold (\<lambda>m. fold (\<lambda>h. fold (\<lambda>w Y.
            Y[((n * H_out + h) * W_out + w) * M + m :=
                Y_unrolled ! (((n * M + m) * H_out + h) * W_out + w)])
            [0..<W_out]) [0..<H_out]) [0..<M]) [0..<N]"
    unfolding rerollOutput_def [abs_def] rerollOutput_thread_def [abs_def] off4 fst_conv snd_conv
    by (intro fold_cong refl ext) simp
  ultimately show ?thesis by simp
qed

lemma length_rerollOutput: "length (rerollOutput (N, M) M N H_out W_out Y_unrolled Y) = length Y"
  by (rule writes_length [OF rerollOutput_writes])

lemma rerollOutput_nth:
  assumes "n < N" "h < H_out" "w < W_out" "m < M" "length Y = N * H_out * W_out * M"
  shows "rerollOutput (N, M) M N H_out W_out Y_unrolled Y ! (((n * H_out + h) * W_out + w) * M + m)
       = Y_unrolled ! (((n * M + m) * H_out + h) * W_out + w)"
proof -
  have "((n * H_out + h) * W_out + w) * M + m < length Y"
    using assms row_major_less4 [of n N h H_out w W_out m M] by simp
  moreover have "((n * H_out + h) * W_out + w) * M + m
      \<in> (\<Union>n<N. \<Union>m<M. \<Union>h<H_out. \<Union>w<W_out. {((n * H_out + h) * W_out + w) * M + m})"
    using assms by blast
  ultimately show ?thesis
    using writes_nth [OF rerollOutput_writes, of _ Y N M H_out W_out Y_unrolled] assms
    by simp
qed
section \<open>Convolution by unrolling\<close>

lemma unroll_cells_all:
  fixes C K Ho Wo :: nat
  shows "(\<Union>c<C. \<Union>p<K. \<Union>q<K. \<Union>h<Ho. \<Union>w<Wo. {((c * K + p) * K + q) * (Ho * Wo) + (h * Wo + w)})
   = {..<C * K * K * (Ho * Wo)}" (is "?L = ?R")
proof (intro set_eqI iffI)
  fix k assume "k \<in> ?L"
  then obtain c p q h w where r: "c < C" "p < K" "q < K" "h < Ho" "w < Wo"
    and k: "k = ((c * K + p) * K + q) * (Ho * Wo) + (h * Wo + w)" by blast
  have "h * Wo + w < Ho * Wo" using r by (simp add: row_major_less)
  moreover have "(c * K + p) * K + q < C * K * K" using r by (simp add: row_major_less)
  ultimately have "k < C * K * K * (Ho * Wo)" unfolding k by (rule row_major_less [rotated])
  then show "k \<in> ?R" by simp
next
  fix k assume "k \<in> ?R"
  then have "k < C * K * K * (Ho * Wo)" by simp
  then obtain row col where row: "row < C * K * K" and col: "col < Ho * Wo"
    and k: "k = row * (Ho * Wo) + col"
    using row_major_decode2 by blast
  obtain a q where a: "a < C * K" and q: "q < K" and row': "row = a * K + q"
    using row_major_decode2 [OF row] by blast
  obtain c p where c: "c < C" and p: "p < K" and a': "a = c * K + p"
    using row_major_decode2 [OF a] by blast
  obtain h w where h: "h < Ho" and w: "w < Wo" and col': "col = h * Wo + w"
    using row_major_decode2 [OF col] by blast
  show "k \<in> ?L" using c p q h w k row' a' col' by blast
qed

lemma unroll_eq_unrolled_input:
  assumes "length X_unroll = C * K * K * ((H + 1 - K) * (W + 1 - K))"
  shows "unroll C H W K n X X_unroll = unrolled_input C H W K n X"
proof (rule nth_equalityI)
  show "length (unroll C H W K n X X_unroll) = length (unrolled_input C H W K n X)"
    using assms by (simp add: length_unroll unrolled_input_def)
next
  fix k assume "k < length (unroll C H W K n X X_unroll)"
  then have k: "k < C * K * K * ((H + 1 - K) * (W + 1 - K))"
    using assms by (simp add: length_unroll)
  then have "unroll C H W K n X X_unroll ! k = X ! unroll_src C H W K n k"
    using writes_nth [OF unroll_writes, of k X_unroll C H W K n X] assms
    unfolding unroll_cells_all by simp
  then show "unroll C H W K n X X_unroll ! k = unrolled_input C H W K n X ! k"
    using k by (simp add: unrolled_input_def)
qed

lemma length_unrolled_input:
  "length (unrolled_input C H W K n X) = C * K * K * ((H + 1 - K) * (W + 1 - K))"
  by (simp add: unrolled_input_def)

lemma cudaMemcpy_full: "length src = n \<Longrightarrow> length dst = n \<Longrightarrow> cudaMemcpy dst src n = src"
  by (simp add: cudaMemcpy_def)

lemma length_malloc: "length (malloc g n) = n"
  by (simp add: malloc_def)

lemma convLayer_forward_sample_eq:
  assumes "length Xh = C * K * K * ((H + 1 - K) * (W + 1 - K))"
    and "length Xd = C * K * K * ((H + 1 - K) * (W + 1 - K))"
  shows "convLayer_forward_sample u M C H W K X Wu grid ydims n (Xh, Xd, Yu) =
     (unrolled_input C H W K n X, unrolled_input C H W K n X,
      matrixMultiplyShared grid (shared_mem u n) Wu (unrolled_input C H W K n X) Yu
        (n * ydims ! 1 * ydims ! 2 * ydims ! 3) M (C * K * K) (C * K * K)
        ((H + 1 - K) * (W + 1 - K)) M ((H + 1 - K) * (W + 1 - K)))"
  unfolding convLayer_forward_sample_def Let_def prod.case
    unroll_eq_unrolled_input [OF assms(1)]
    cudaMemcpy_full [OF length_unrolled_input assms(2)] ..

lemma convLayer_forward_loop:
  assumes "length Xh = C * K * K * ((H + 1 - K) * (W + 1 - K))"
    and "length Xd = C * K * K * ((H + 1 - K) * (W + 1 - K))"
  shows "\<exists>Xh' Xd'. length Xh' = C * K * K * ((H + 1 - K) * (W + 1 - K))
      \<and> length Xd' = C * K * K * ((H + 1 - K) * (W + 1 - K))
      \<and> fold (convLayer_forward_sample u M C H W K X Wu grid ydims) [0..<N] (Xh, Xd, Yu)
        = (Xh', Xd', fold (\<lambda>n Yu. matrixMultiplyShared grid (shared_mem u n) Wu
             (unrolled_input C H W K n X) Yu
             (n * ydims ! 1 * ydims ! 2 * ydims ! 3) M (C * K * K) (C * K * K)
             ((H + 1 - K) * (W + 1 - K)) M ((H + 1 - K) * (W + 1 - K))) [0..<N] Yu)"
proof (induction N)
  case 0
  show ?case using assms by simp
next
  case (Suc N)
  then obtain Xh' Xd' where l: "length Xh' = C * K * K * ((H + 1 - K) * (W + 1 - K))"
      "length Xd' = C * K * K * ((H + 1 - K) * (W + 1 - K))"
    and f: "fold (convLayer_forward_sample u M C H W K X Wu grid ydims) [0..<N] (Xh, Xd, Yu)
        = (Xh', Xd', fold (\<lambda>n Yu. matrixMultiplyShared grid (shared_mem u n) Wu
             (unrolled_input C H W K n X) Yu
             (n * ydims ! 1 * ydims ! 2 * ydims ! 3) M (C * K * K) (C * K * K)
             ((H + 1 - K) * (W + 1 - K)) M ((H + 1 - K) * (W + 1 - K))) [0..<N] Yu)"
    by blast
  show ?case
    by (simp add: f convLayer_forward_sample_eq [OF l] length_unrolled_input)
qed

lemma unrolled_out_cell:
  assumes "m < M" "col < (H + 1 - K) * (W + 1 - K)"
  shows "unrolled_out Wu M C H W K X ((n * M + m) * ((H + 1 - K) * (W + 1 - K)) + col)
       = max 0 (mm_cell Wu (unrolled_input C H W K n X) (C * K * K) (C * K * K)
                  ((H + 1 - K) * (W + 1 - K)) m col)"
  using assms unfolding unrolled_out_def Let_def by (simp add: decode_div decode_mod)

lemma cell_offset:
  fixes a Ho Wo h w :: nat
  shows "(a * Ho + h) * Wo + w = a * (Ho * Wo) + (h * Wo + w)"
  by (simp add: algebra_simps)

lemma unrolled_size:
  fixes M N Ho Wo :: nat
  shows "M * N * Wo * Ho = N * M * Ho * Wo"
  by (simp add: algebra_simps)

lemma output_size:
  fixes M N Ho Wo :: nat
  shows "M * N * Wo * Ho = N * Ho * Wo * M"
  by (simp add: algebra_simps)

lemma sample_offset:
  fixes n Ho Wo M i j :: nat
  shows "n * Ho * Wo * M + (i * (Ho * Wo) + j) = (n * M + i) * (Ho * Wo) + j"
  by (simp add: algebra_simps)

lemma sample_matmul_writes:
  "writes (\<lambda>Yu. matrixMultiplyShared
              (ceil_div ((H + 1 - K) * (W + 1 - K)) TILE_WIDTH, ceil_div M TILE_WIDTH) sh Wu
              (unrolled_input C H W K n X) Yu (n * (H + 1 - K) * (W + 1 - K) * M)
              M (C * K * K) (C * K * K) ((H + 1 - K) * (W + 1 - K)) M ((H + 1 - K) * (W + 1 - K)))
     {(n * M + i) * ((H + 1 - K) * (W + 1 - K)) + j |i j. i < M \<and> j < (H + 1 - K) * (W + 1 - K)}
     (unrolled_out Wu M C H W K X)"
proof -
  let ?Hu = "(H + 1 - K) * (W + 1 - K)"
  have "writes (\<lambda>Yu. matrixMultiplyShared (ceil_div ?Hu TILE_WIDTH, ceil_div M TILE_WIDTH) sh Wu
              (unrolled_input C H W K n X) Yu (n * (H + 1 - K) * (W + 1 - K) * M)
              M (C * K * K) (C * K * K) ?Hu M ?Hu)
     {n * (H + 1 - K) * (W + 1 - K) * M + (i * ?Hu + j) |i j. i < M \<and> j < ?Hu}
     (mm_out Wu (unrolled_input C H W K n X) (n * (H + 1 - K) * (W + 1 - K) * M)
        (C * K * K) (C * K * K) ?Hu ?Hu)"
    by (intro matrixMultiplyShared_writes ceil_div_covers)
  then have "writes (\<lambda>Yu. matrixMultiplyShared (ceil_div ?Hu TILE_WIDTH, ceil_div M TILE_WIDTH) sh Wu
              (unrolled_input C H W K n X) Yu (n * (H + 1 - K) * (W + 1 - K) * M)
              M (C * K * K) (C * K * K) ?Hu M ?Hu)
     {n * (H + 1 - K) * (W + 1 - K) * M + (i * ?Hu + j) |i j. i < M \<and> j < ?Hu}
     (unrolled_out Wu M C H W K X)"
  proof (rule writes_cong)
    fix k assume "k \<in> {n * (H + 1 - K) * (W + 1 - K) * M + (i * ?Hu + j) |i j. i < M \<and> j < ?Hu}"
    then obtain i j where ij: "i < M" "j < ?Hu"
      and k: "k = n * (H + 1 - K) * (W + 1 - K) * M + (i * ?Hu + j)" by blast
    show "mm_out Wu (unrolled_input C H W K n X) (n * (H + 1 - K) * (W + 1 - K) * M)
        (C * K * K) (C * K * K) ?Hu ?Hu k = unrolled_out Wu M C H W K X k"
      unfolding k mm_out_cell [OF ij(2)]
      unfolding sample_offset unrolled_out_cell [OF ij] ..
  qed
  then show ?thesis unfolding sample_offset .
qed

lemma loop_matmul_writes:
  "writes (fold (\<lambda>n Yu. matrixMultiplyShared
              (ceil_div ((H + 1 - K) * (W + 1 - K)) TILE_WIDTH, ceil_div M TILE_WIDTH)
              (sh n) Wu (unrolled_input C H W K n X) Yu (n * (H + 1 - K) * (W + 1 - K) * M)
              M (C * K * K) (C * K * K) ((H + 1 - K) * (W + 1 - K)) M ((H + 1 - K) * (W + 1 - K)))
            [0..<N])
     (\<Union>n<N. {(n * M + i) * ((H + 1 - K) * (W + 1 - K)) + j |i j. i < M \<and> j < (H + 1 - K) * (W + 1 - K)})
     (unrolled_out Wu M C H W K X)"
  by (intro writes_fold_upt sample_matmul_writes)

lemma loop_matmul_nth:
  assumes "n < N" "m < M" "h < H + 1 - K" "w < W + 1 - K"
    and "length Yu = M * N * (W + 1 - K) * (H + 1 - K)"
  shows "fold (\<lambda>n Yu. matrixMultiplyShared
              (ceil_div ((H + 1 - K) * (W + 1 - K)) TILE_WIDTH, ceil_div M TILE_WIDTH)
              (sh n) Wu (unrolled_input C H W K n X) Yu (n * (H + 1 - K) * (W + 1 - K) * M)
              M (C * K * K) (C * K * K) ((H + 1 - K) * (W + 1 - K)) M ((H + 1 - K) * (W + 1 - K)))
            [0..<N] Yu ! (((n * M + m) * (H + 1 - K) + h) * (W + 1 - K) + w)
       = max 0 (mm_cell Wu (unrolled_input C H W K n X) (C * K * K) (C * K * K)
                  ((H + 1 - K) * (W + 1 - K)) m (h * (W + 1 - K) + w))"
proof -
  let ?Ho = "H + 1 - K" and ?Wo = "W + 1 - K"
  let ?k = "(n * M + m) * (?Ho * ?Wo) + (h * ?Wo + w)"
  have col: "h * ?Wo + w < ?Ho * ?Wo" using assms by (simp add: row_major_less)
  have eq: "((n * M + m) * ?Ho + h) * ?Wo + w = ?k" by (rule cell_offset)
  have "((n * M + m) * ?Ho + h) * ?Wo + w < N * M * ?Ho * ?Wo"
    using assms(1-4) by (rule row_major_less4)
  moreover have "N * M * ?Ho * ?Wo = length Yu"
    unfolding assms(5) by (rule unrolled_size [symmetric])
  ultimately have len: "?k < length Yu" unfolding eq by simp
  have "?k \<in> (\<Union>n<N. {(n * M + i) * (?Ho * ?Wo) + j |i j. i < M \<and> j < ?Ho * ?Wo})"
    using assms(1,2) col by blast
  then show ?thesis
    unfolding eq
    using writes_nth [OF loop_matmul_writes [where H = H and K = K and W = W and M = M
          and sh = sh and Wu = Wu and C = C and X = X and N = N] len] assms(2) col
    by (simp only: if_True unrolled_out_cell)
qed

lemma sum_three_tiles:
  fixes g :: "nat \<Rightarrow> 'a::linordered_field"
  shows "(\<Sum>k<C * K * K. g k) = (\<Sum>c<C. \<Sum>p<K. \<Sum>q<K. g ((c * K + p) * K + q))"
proof -
  have "(\<Sum>k<C * K * K. g k) = (\<Sum>a<C * K. \<Sum>q<K. g (q + a * K))"
    by (rule sum_tiles [symmetric])
  also have "\<dots> = (\<Sum>c<C. \<Sum>p<K. \<Sum>q<K. g (q + (p + c * K) * K))"
    by (rule sum_tiles [symmetric])
  finally show ?thesis by (simp add: add.commute)
qed

lemma unrolled_product:
  assumes Wu: "\<And>c p q. c < C \<Longrightarrow> p < K \<Longrightarrow> q < K
      \<Longrightarrow> Wu ! (((m * C + c) * K + p) * K + q) = Mask ! (((p * K + q) * C + c) * M + m)"
    and "h < H + 1 - K" "w < W + 1 - K"
  shows "mm_cell Wu (unrolled_input C H W K n X) (C * K * K) (C * K * K)
           ((H + 1 - K) * (W + 1 - K)) m (h * (W + 1 - K) + w)
       = conv_cell X [N, H, W, C] Mask [K, K, C, M] n h w m"
proof -
  let ?Hu = "(H + 1 - K) * (W + 1 - K)"
  let ?col = "h * (W + 1 - K) + w"
  have col: "?col < ?Hu" using assms(2,3) by (simp add: row_major_less)
  have tm: "Wu ! (m * (C * K * K) + ((c * K + p) * K + q))
        * unrolled_input C H W K n X ! (((c * K + p) * K + q) * ?Hu + ?col)
      = X ! (((n * H + (h + p)) * W + (w + q)) * C + c) * Mask ! (((p * K + q) * C + c) * M + m)"
    if "c < C" "p < K" "q < K" for c p q
  proof -
    have e: "m * (C * K * K) + ((c * K + p) * K + q) = ((m * C + c) * K + p) * K + q"
      by (simp add: algebra_simps)
    have a: "Wu ! (m * (C * K * K) + ((c * K + p) * K + q))
        = Mask ! (((p * K + q) * C + c) * M + m)"
      unfolding e by (rule Wu [OF that])
    have "(c * K + p) * K + q < C * K * K" using that by (simp add: row_major_less)
    then have "((c * K + p) * K + q) * ?Hu + ?col < C * K * K * ?Hu"
      using col by (rule row_major_less)
    then have "unrolled_input C H W K n X ! (((c * K + p) * K + q) * ?Hu + ?col)
        = X ! unroll_src C H W K n (((c * K + p) * K + q) * ?Hu + ?col)"
      by (simp add: unrolled_input_def)
    then have b: "unrolled_input C H W K n X ! (((c * K + p) * K + q) * ?Hu + ?col)
        = X ! (((n * H + (h + p)) * W + (w + q)) * C + c)"
      using unroll_src_cell [OF that(2,3) assms(2,3)] by simp
    show ?thesis unfolding a b by (rule mult.commute)
  qed
  have "mm_cell Wu (unrolled_input C H W K n X) (C * K * K) (C * K * K) ?Hu m ?col
      = (\<Sum>c<C. \<Sum>p<K. \<Sum>q<K. Wu ! (m * (C * K * K) + ((c * K + p) * K + q))
            * unrolled_input C H W K n X ! (((c * K + p) * K + q) * ?Hu + ?col))"
    unfolding mm_cell_def min.idem by (rule sum_three_tiles)
  also have "\<dots> = (\<Sum>c<C. \<Sum>p<K. \<Sum>q<K.
      X ! (((n * H + (h + p)) * W + (w + q)) * C + c) * Mask ! (((p * K + q) * C + c) * M + m))"
    by (intro sum.cong refl tm) simp_all
  also have "\<dots> = (\<Sum>p<K. \<Sum>c<C. \<Sum>q<K.
      X ! (((n * H + (h + p)) * W + (w + q)) * C + c) * Mask ! (((p * K + q) * C + c) * M + m))"
    by (rule sum.swap)
  also have "\<dots> = (\<Sum>p<K. \<Sum>q<K. \<Sum>c<C.
      X ! (((n * H + (h + p)) * W + (w + q)) * C + c) * Mask ! (((p * K + q) * C + c) * M + m))"
    by (intro sum.cong refl sum.swap)
  finally show ?thesis by (simp add: conv_cell_def)
qed

lemma relu_fold_nth:
  fixes X :: "'a::linordered_field list"
  shows "length (fold (\<lambda>i X. X[i := (if X ! i < 0 then 0 else X ! i)]) [0..<n] X) = length X
    \<and> (\<forall>k<length X. fold (\<lambda>i X. X[i := (if X ! i < 0 then 0 else X ! i)]) [0..<n] X ! k
          = (if k < n then max 0 (X ! k) else X ! k))"
proof (induction n)
  case 0
  show ?case by simp
next
  case (Suc n)
  then show ?case
    by (auto simp add: nth_list_update max_def not_less less_Suc_eq)
qed

lemma relu4_nth:
  assumes "k < length X" "length X = N * H * W * M"
  shows "relu4 X [N, H, W, M] ! k = max 0 (X ! k)"
  using relu_fold_nth [of "N * H * W * M" X] assms by (simp add: relu4_def)

lemma length_relu4: "length (relu4 X dims) = length X"
  using relu_fold_nth [of _ X] by (simp add: relu4_def)

lemma convLayer_forward_unfold:
  assumes Mask: "length Mask = M * C * K * K"
    and Y: "length Y = M * N * (W + 1 - K) * (H + 1 - K)"
  shows "convLayer_forward u N M C H W K X Mask Y xdims [N, H + 1 - K, W + 1 - K, M]
       = rerollOutput (N, M) M N (H + 1 - K) (W + 1 - K)
           (fold (\<lambda>n Yu. matrixMultiplyShared
              (ceil_div ((H + 1 - K) * (W + 1 - K)) TILE_WIDTH, ceil_div M TILE_WIDTH)
              (shared_mem u n)
              (unrollFilters (C, M) C M K Mask (malloc (dev_W_unrolled u) (M * C * K * K)))
              (unrolled_input C H W K n X) Yu (n * (H + 1 - K) * (W + 1 - K) * M)
              M (C * K * K) (C * K * K) ((H + 1 - K) * (W + 1 - K)) M ((H + 1 - K) * (W + 1 - K)))
            [0..<N] (malloc (dev_Y_unrolled u) (M * N * (W + 1 - K) * (H + 1 - K))))
           (malloc (dev_Y u) (M * N * (W + 1 - K) * (H + 1 - K)))"
proof -
  let ?len = "C * K * K * ((H + 1 - K) * (W + 1 - K))"
  let ?cnt = "M * N * (W + 1 - K) * (H + 1 - K)"
  let ?Wu = "unrollFilters (C, M) C M K Mask (malloc (dev_W_unrolled u) (M * C * K * K))"
  let ?grid = "(ceil_div ((H + 1 - K) * (W + 1 - K)) TILE_WIDTH, ceil_div M TILE_WIDTH)"
  let ?ydims = "[N, H + 1 - K, W + 1 - K, M]"
  have W: "cudaMemcpy (malloc (dev_W u) (M * C * K * K)) Mask (M * C * K * K) = Mask"
    by (rule cudaMemcpy_full [OF Mask length_malloc])
  obtain Xh' Xd' where loop:
    "fold (convLayer_forward_sample u M C H W K X ?Wu ?grid ?ydims) [0..<N]
       (malloc (host_X_unrolled u) ?len, malloc (dev_X_unrolled u) ?len,
        malloc (dev_Y_unrolled u) ?cnt)
     = (Xh', Xd', fold (\<lambda>n Yu. matrixMultiplyShared ?grid (shared_mem u n) ?Wu
             (unrolled_input C H W K n X) Yu
             (n * ?ydims ! 1 * ?ydims ! 2 * ?ydims ! 3) M (C * K * K) (C * K * K)
             ((H + 1 - K) * (W + 1 - K)) M ((H + 1 - K) * (W + 1 - K))) [0..<N]
             (malloc (dev_Y_unrolled u) ?cnt))"
    using convLayer_forward_loop [OF length_malloc length_malloc] by blast
  have base: "n * ?ydims ! 1 * ?ydims ! 2 * ?ydims ! 3 = n * (H + 1 - K) * (W + 1 - K) * M" for n
    by simp
  have out: "cudaMemcpy Y D ?cnt = D" if "length D = ?cnt" for D
    by (rule cudaMemcpy_full [OF that Y])
  show ?thesis
    unfolding convLayer_forward_def Let_def W loop prod.case base
    by (rule out) (simp add: length_rerollOutput length_malloc)
qed

lemma convLayer_forward_cell:
  assumes Mask: "length Mask = M * C * K * K"
    and Y: "length Y = M * N * (W + 1 - K) * (H + 1 - K)"
    and idx: "n < N" "h < H + 1 - K" "w < W + 1 - K" "m < M"
  shows "convLayer_forward u N M C H W K X Mask Y xdims [N, H + 1 - K, W + 1 - K, M]
           ! (((n * (H + 1 - K) + h) * (W + 1 - K) + w) * M + m)
       = max 0 (conv_cell X [N, H, W, C] Mask [K, K, C, M] n h w m)"
proof -
  let ?Wu = "unrollFilters (C, M) C M K Mask (malloc (dev_W_unrolled u) (M * C * K * K))"
  have Wu: "?Wu ! (((m * C + c) * K + p) * K + q) = Mask ! (((p * K + q) * C + c) * M + m)"
    if "c < C" "p < K" "q < K" for c p q
    using idx(4) that by (rule unrollFilters_nth) (rule length_malloc)
  have len: "length (malloc (dev_Y u) (M * N * (W + 1 - K) * (H + 1 - K)))
      = N * (H + 1 - K) * (W + 1 - K) * M"
    unfolding length_malloc by (rule output_size)
  have prod: "mm_cell ?Wu (unrolled_input C H W K n X) (C * K * K) (C * K * K)
           ((H + 1 - K) * (W + 1 - K)) m (h * (W + 1 - K) + w)
       = conv_cell X [N, H, W, C] Mask [K, K, C, M] n h w m"
    by (rule unrolled_product [OF Wu idx(2,3)])
  show ?thesis
    unfolding convLayer_forward_unfold [OF Mask Y]
      rerollOutput_nth [OF idx len]
      loop_matmul_nth [OF idx(1,4,2,3) length_malloc]
      prod ..
qed

lemma length_convLayer_forward:
  assumes "length Mask = M * C * K * K" "length Y = M * N * (W + 1 - K) * (H + 1 - K)"
  shows "length (convLayer_forward u N M C H W K X Mask Y xdims [N, H + 1 - K, W + 1 - K, M])
       = N * (H + 1 - K) * (W + 1 - K) * M"
  unfolding convLayer_forward_unfold [OF assms] length_rerollOutput length_malloc
  by (rule output_size)

section \<open>Average-pool kernel\<close>

lemma pool_out_cell:
  assumes "h < ydims ! 1" "w < ydims ! 2" "m < ydims ! 3"
  shows "pool_out X xdims ydims f (((n * ydims ! 1 + h) * ydims ! 2 + w) * ydims ! 3 + m)
       = pool_cell X xdims f n h w m"
  using assms by (simp add: pool_out_def decode_div decode_mod)

lemma pool_acc:
  "fold (\<lambda>p. fold (\<lambda>q acc. acc + a p q / (of_nat f * of_nat f)) [0..<f]) [0..<f] (0 :: 'a::linordered_field)
   = (1 / (of_nat f)\<^sup>2) * (\<Sum>p<f. \<Sum>q<f. a p q)"
proof -
  have inner: "fold (\<lambda>q acc. acc + a p q / (of_nat f * of_nat f)) [0..<f] s
      = s + (\<Sum>q<f. a p q / (of_nat f * of_nat f))" for p and s :: 'a
    by (rule fold_sum_upt)
  have "fold (\<lambda>p. fold (\<lambda>q acc. acc + a p q / (of_nat f * of_nat f)) [0..<f]) [0..<f] (0 :: 'a)
      = (\<Sum>p<f. \<Sum>q<f. a p q / (of_nat f * of_nat f))"
    unfolding inner [abs_def] fold_sum_upt by simp
  then show ?thesis
    by (simp add: sum_divide_distrib power2_eq_square)
qed

lemma average_pool_kernel_writes:
  assumes "by < ydims ! 3"
  shows "writes (average_pool_kernel X xdims ydims f (bx, by, bz) t)
           (pool_thread_cells ydims (bx, by, bz) t) (pool_out X xdims ydims f)"
proof -
  obtain ty tx where t: "t = (ty, tx)" by (cases t)
  let ?h = "(bz div ((ydims ! 2 - 1) div TILE_WIDTH + 1)) * TILE_WIDTH + ty"
  let ?w = "(bz mod ((ydims ! 1 - 1) div TILE_WIDTH + 1)) * TILE_WIDTH + tx"
  show ?thesis
  proof (cases "?w < ydims ! 2 \<and> ?h < ydims ! 1")
    case True
    have "average_pool_kernel X xdims ydims f (bx, by, bz) (ty, tx)
        = (\<lambda>Y. Y[((bx * ydims ! 1 + ?h) * ydims ! 2 + ?w) * ydims ! 3 + by
                  := pool_cell X xdims f bx ?h ?w by])"
      using True
      by (simp add: average_pool_kernel_def Let_def fun_eq_iff off4 pool_acc pool_cell_def)
    moreover have "writes (\<lambda>Y. Y[((bx * ydims ! 1 + ?h) * ydims ! 2 + ?w) * ydims ! 3 + by
                  := pool_cell X xdims f bx ?h ?w by])
        {((bx * ydims ! 1 + ?h) * ydims ! 2 + ?w) * ydims ! 3 + by} (pool_out X xdims ydims f)"
      using True assms by (intro writes_point pool_out_cell) simp_all
    ultimately show ?thesis
      using True by (simp add: t pool_thread_cells_def)
  next
    case False
    then have "average_pool_kernel X xdims ydims f (bx, by, bz) (ty, tx) = (\<lambda>Y. Y)"
      by (auto simp add: average_pool_kernel_def Let_def fun_eq_iff)
    then show ?thesis
      using False by (auto simp add: t pool_thread_cells_def writes_id)
  qed
qed

lemma average_pool_launch_writes:
  assumes "M \<le> ydims ! 3"
  shows "writes (\<lambda>Y. average_pool_launch N M X Y xdims ydims f)
     (\<Union>bx<N. \<Union>by<M.
        \<Union>bz<((ydims ! 2 - 1) div TILE_WIDTH + 1) * ((ydims ! 1 - 1) div TILE_WIDTH + 1).
        \<Union>t\<in>set block_threads. pool_thread_cells ydims (bx, by, bz) t)
     (pool_out X xdims ydims f)"
  unfolding average_pool_launch_def Let_def
  using assms by (intro writes_fold_upt writes_fold average_pool_kernel_writes) simp

text \<open>When the output has at most \<open>TILE_WIDTH\<close> rows and columns (one tile, as for the
  \<open>12 \<times> 12\<close> and \<open>4 \<times> 4\<close> outputs of the network), the launch stores the window mean in
  every cell.\<close>

lemma average_pool_launch_small:
  assumes "H' \<le> TILE_WIDTH" "W' \<le> TILE_WIDTH"
    and "n < N" "h < H'" "w < W'" "m < M" "length Y = N * H' * W' * M"
  shows "average_pool_launch N M X Y xdims [N, H', W', M] f ! (((n * H' + h) * W' + w) * M + m)
       = pool_cell X xdims f n h w m"
proof -
  let ?ydims = "[N, H', W', M]"
  let ?k = "((n * H' + h) * W' + w) * M + m"
  have tiles: "(W' - 1) div TILE_WIDTH = 0" "(H' - 1) div TILE_WIDTH = 0"
    using assms(1,2,4,5) by simp_all
  have "?k \<in> pool_thread_cells ?ydims (n, m, 0) (h, w)"
    using assms(4,5) by (simp add: pool_thread_cells_def)
  moreover have "(h, w) \<in> set block_threads"
    using assms(1,2,4,5) by (simp add: block_threads_iff)
  ultimately have "?k \<in> (\<Union>bx<N. \<Union>by<M.
        \<Union>bz<((?ydims ! 2 - 1) div TILE_WIDTH + 1) * ((?ydims ! 1 - 1) div TILE_WIDTH + 1).
        \<Union>t\<in>set block_threads. pool_thread_cells ?ydims (bx, by, bz) t)"
    using assms(3,6) tiles by auto
  moreover have "?k < length Y"
    using row_major_less4 [OF assms(3-6)] assms(7) by simp
  moreover have "pool_out X xdims ?ydims f ?k = pool_cell X xdims f n h w m"
    using pool_out_cell [of h ?ydims w m X xdims f n] assms(4-6) by simp
  ultimately show ?thesis
    using writes_nth [OF average_pool_launch_writes, of M ?ydims ?k Y N X xdims f]
    by simp
qed

text \<open>The \<open>4 \<times> 4\<close> example of the specification on the sequential operator.\<close>

lemma average_pool_example:
  "average_pool [1, 2, 3, 4, 5, 6, 7, 8, 9, 10, 11, 12, 13, 14, 15, 16 :: rat] [1, 4, 4, 1] 2
     (zeros [1, 2, 2, 1]) [1, 2, 2, 1] = [7 / 2, 11 / 2, 23 / 2, 27 / 2]"
  by (simp add: average_pool_def zeros_def eval_nat_numeral)

section \<open>Claims\<close>

text \<open>
  C1. For an input \<open>X\<close> of shape \<open>N \<times> H \<times> W \<times> C\<close>, a filter \<open>Wt\<close> of shape
  \<open>K \<times> K \<times> C \<times> M\<close> and a zero-initialised output of shape
  \<open>N \<times> (H - K + 1) \<times> (W - K + 1) \<times> M\<close>, the direct-form convolution leaves in the output
  cell \<open>[n, h, w, m]\<close> the triple sum over \<open>p < K\<close>, \<open>q < K\<close>, \<open>c < C\<close> of
  \<open>X[n, h + p, w + q, c] * Wt[p, q, c, m]\<close>, all three tensors addressed row-major with the
  last index fastest.
\<close>

theorem conv_forward_valid_direct_form:
  assumes "n < N" "h < H - K + 1" "w < W - K + 1" "m < M"
  shows "conv_forward_valid X [N, H, W, C] Wt [K, K, C, M]
           (zeros [N, H - K + 1, W - K + 1, M]) [N, H - K + 1, W - K + 1, M]
           ! (((n * (H - K + 1) + h) * (W - K + 1) + w) * M + m)
       = (\<Sum>p<K. \<Sum>q<K. \<Sum>c<C.
            X ! (((n * H + (h + p)) * W + (w + q)) * C + c) * Wt ! (((p * K + q) * C + c) * M + m))"
  using conv_forward_valid_zeros_nth [OF assms, of X "[N, H, W, C]" Wt "[K, K, C, M]"]
  by (simp add: conv_cell_def)

text \<open>The theorem at a \<open>3 \<times> 3\<close> image and a \<open>2 \<times> 2\<close> filter, output cell \<open>[0, 1, 1, 0]\<close>.\<close>

theorem conv_forward_valid_direct_form_witness:
  "conv_forward_valid [1, 2, 3, 4, 5, 6, 7, 8, 9] [1, 3, 3, 1] [1, 0, 0, -1] [2, 2, 1, 1]
     (zeros [1, 2, 2, 1]) [1, 2, 2, 1] ! 3 = (-4 :: rat)"
  using conv_forward_valid_direct_form [of 0 1 1 3 2 1 3 0 1 "[1, 2, 3, 4, 5, 6, 7, 8, 9 :: rat]" 1 "[1, 0, 0, -1]"]
  by (simp add: eval_nat_numeral lessThan_Suc)

text \<open>
  C2, as amended. For every input \<open>X\<close> and filter \<open>Mask\<close> of shape \<open>K \<times> K \<times> C \<times> M\<close> with
  \<open>K \<le> H\<close> and \<open>K \<le> W\<close>, and whatever the uninitialised host, device and shared memory
  holds, the unroll-and-multiply path (filter unroll, per-sample input unroll, tiled matrix
  multiply, output reroll) returns the output of the direct-form convolution on the same
  operands with every cell clamped at zero, that is followed by \<open>relu4\<close>.
\<close>

theorem convLayer_forward_refines_direct_form:
  assumes "K \<le> H" "K \<le> W"
    and "length Mask = K * K * C * M"
    and "length Y = N * (H - K + 1) * (W - K + 1) * M"
  shows "convLayer_forward u N M C H W K X Mask Y [N, H, W, C] [N, H - K + 1, W - K + 1, M]
       = relu4 (conv_forward_valid X [N, H, W, C] Mask [K, K, C, M]
                  (zeros [N, H - K + 1, W - K + 1, M]) [N, H - K + 1, W - K + 1, M])
           [N, H - K + 1, W - K + 1, M]"
proof -
  have Ho: "H - K + 1 = H + 1 - K" and Wo: "W - K + 1 = W + 1 - K"
    using assms(1,2) by simp_all
  let ?Ho = "H + 1 - K" and ?Wo = "W + 1 - K"
  let ?ydims = "[N, ?Ho, ?Wo, M]"
  let ?direct = "conv_forward_valid X [N, H, W, C] Mask [K, K, C, M] (zeros ?ydims) ?ydims"
  have Mask: "length Mask = M * C * K * K"
    unfolding assms(3) by (simp add: algebra_simps)
  have Y: "length Y = M * N * ?Wo * ?Ho"
    unfolding assms(4) Ho Wo by (rule output_size [symmetric])
  have lz: "length (zeros ?ydims :: 'a list) = N * ?Ho * ?Wo * M"
    by (simp add: length_zeros mult.assoc)
  have ld: "length ?direct = N * ?Ho * ?Wo * M"
    unfolding acc_by_length [OF conv_forward_valid_acc] by (rule lz)
  have "convLayer_forward u N M C H W K X Mask Y [N, H, W, C] ?ydims = relu4 ?direct ?ydims"
  proof (rule nth_equalityI)
    show "length (convLayer_forward u N M C H W K X Mask Y [N, H, W, C] ?ydims)
        = length (relu4 ?direct ?ydims)"
      unfolding length_convLayer_forward [OF Mask Y] length_relu4 ld ..
  next
    fix k assume "k < length (convLayer_forward u N M C H W K X Mask Y [N, H, W, C] ?ydims)"
    then have k: "k < N * ?Ho * ?Wo * M"
      unfolding length_convLayer_forward [OF Mask Y] .
    then obtain n h w m where idx: "n < N" "h < ?Ho" "w < ?Wo" "m < M"
      and k': "k = ((n * ?Ho + h) * ?Wo + w) * M + m"
      using row_major_decode4 by blast
    have "relu4 ?direct ?ydims ! k = max 0 (?direct ! k)"
      using k ld by (intro relu4_nth) simp_all
    also have "?direct ! k = conv_cell X [N, H, W, C] Mask [K, K, C, M] n h w m"
      unfolding k' by (rule conv_forward_valid_zeros_nth [OF idx])
    finally show "convLayer_forward u N M C H W K X Mask Y [N, H, W, C] ?ydims ! k
        = relu4 ?direct ?ydims ! k"
      unfolding k' convLayer_forward_cell [OF Mask Y idx] by simp
  qed
  then show ?thesis unfolding Ho Wo .
qed

text \<open>The theorem on a \<open>2 \<times> 2\<close> image and a \<open>2 \<times> 2\<close> filter of ones.\<close>

theorem convLayer_forward_refines_direct_form_witness:
  "(2 :: nat) \<le> 2 \<and> length [1, 1, 1, 1 :: rat] = 2 * 2 * 1 * 1
   \<and> length [5 :: rat] = 1 * (2 - 2 + 1) * (2 - 2 + 1) * 1
   \<and> convLayer_forward (const_conv_uninit 7) 1 1 1 2 2 2 [1, 2, 3, 4] [1, 1, 1, 1] [5 :: rat]
        [1, 2, 2, 1] [1, 2 - 2 + 1, 2 - 2 + 1, 1] = [10]"
proof -
  have "relu4 (conv_forward_valid [1, 2, 3, 4] [1, 2, 2, 1] [1, 1, 1, 1 :: rat] [2, 2, 1, 1]
                  (zeros [1, 1, 1, 1]) [1, 1, 1, 1]) [1, 1, 1, 1] = [10]"
    by (simp add: relu4_def conv_forward_valid_def zeros_def eval_nat_numeral)
  then show ?thesis
    using convLayer_forward_refines_direct_form [of 2 2 2 "[1, 1, 1, 1 :: rat]" 1 1 "[5]" 1
        "const_conv_uninit 7" "[1, 2, 3, 4]"]
    by simp
qed

text \<open>The claim as stated fails: on the one-cell input \<open>[1]\<close> with filter \<open>[-1]\<close> the
  unroll-and-multiply path returns \<open>[0]\<close> and the direct form \<open>[-1]\<close>.\<close>

theorem convLayer_forward_not_direct_form:
  "convLayer_forward (const_conv_uninit 7) 1 1 1 1 1 1 [1] [-1] [5 :: rat]
       [1, 1, 1, 1] [1, 1 - 1 + 1, 1 - 1 + 1, 1]
   \<noteq> conv_forward_valid [1] [1, 1, 1, 1] [-1] [1, 1, 1, 1]
       (zeros [1, 1 - 1 + 1, 1 - 1 + 1, 1]) [1, 1 - 1 + 1, 1 - 1 + 1, 1]"
proof -
  have "convLayer_forward (const_conv_uninit 7) 1 1 1 1 1 1 [1] [-1] [5 :: rat]
       [1, 1, 1, 1] [1, 1 + 1 - 1, 1 + 1 - 1, 1] ! (((0 * (1 + 1 - 1) + 0) * (1 + 1 - 1) + 0) * 1 + 0)
     = max 0 (conv_cell [1] [1, 1, 1, 1] [-1] [1, 1, 1, 1] 0 0 0 0)"
    by (rule convLayer_forward_cell) simp_all
  then have "convLayer_forward (const_conv_uninit 7) 1 1 1 1 1 1 [1] [-1] [5 :: rat]
       [1, 1, 1, 1] [1, 1, 1, 1] ! 0 = 0"
    by (simp add: conv_cell_def)
  moreover have "conv_forward_valid [1] [1, 1, 1, 1] [-1 :: rat] [1, 1, 1, 1]
       (zeros [1, 1, 1, 1]) [1, 1, 1, 1] ! 0 = -1"
    by (simp add: conv_forward_valid_def zeros_def)
  ultimately show ?thesis by auto
qed

text \<open>
  C3, as amended. For matrices \<open>A\<close> (\<open>numCRows \<times> numAColumns\<close>) and \<open>B\<close> (\<open>numBRows\<close> rows,
  row stride \<open>numBColumns\<close>) with \<open>numAColumns = numBRows\<close>, whatever the three extents are
  relative to the tile width and whatever the shared tiles hold at the start, a launch
  whose grid covers the output stores in every cell \<open>C[i, j]\<close> the dot product of row \<open>i\<close>
  of \<open>A\<close> and column \<open>j\<close> of \<open>B\<close>, clamped at zero: \<open>max(0, \<Sum>k. A[i, k] * B[k, j])\<close>.
\<close>

theorem matrixMultiplyShared_clamped_product:
  assumes "numAColumns = numBRows"
    and "numCColumns \<le> gx * TILE_WIDTH" "numCRows \<le> gy * TILE_WIDTH"
    and "i < numCRows" "j < numCColumns" "length C = numCRows * numCColumns"
  shows "matrixMultiplyShared (gx, gy) shared0 A B C 0 numARows numAColumns numBRows numBColumns
           numCRows numCColumns ! (i * numCColumns + j)
       = max 0 (\<Sum>k<numAColumns. A ! (i * numAColumns + k) * B ! (k * numBColumns + j))"
  using matrixMultiplyShared_nth [of numCColumns gx numCRows gy i j 0 C shared0 A B numARows
      numAColumns numBRows numBColumns] assms
  by (simp add: mm_cell_def)

text \<open>The theorem on \<open>15 \<times> 15\<close> matrices (one less than the tile width in every extent),
  cell \<open>[14, 14]\<close>, with a negative and with a positive product.\<close>

theorem matrixMultiplyShared_clamped_product_witness:
  "(15 :: nat) = 15 \<and> 15 \<le> ceil_div 15 TILE_WIDTH * TILE_WIDTH
   \<and> length (replicate 225 (9 :: rat)) = 15 * 15
   \<and> matrixMultiplyShared (ceil_div 15 TILE_WIDTH, ceil_div 15 TILE_WIDTH)
        (\<lambda>_. \<lparr>Ads = (\<lambda>_ _. 7), Bds = (\<lambda>_ _. 7)\<rparr>)
        (replicate 225 1) (replicate 225 (-2)) (replicate 225 (9 :: rat)) 0 15 15 15 15 15 15
        ! (14 * 15 + 14) = 0
   \<and> matrixMultiplyShared (ceil_div 15 TILE_WIDTH, ceil_div 15 TILE_WIDTH)
        (\<lambda>_. \<lparr>Ads = (\<lambda>_ _. 7), Bds = (\<lambda>_ _. 7)\<rparr>)
        (replicate 225 1) (replicate 225 2) (replicate 225 (9 :: rat)) 0 15 15 15 15 15 15
        ! (14 * 15 + 14) = 30"
proof -
  have cover: "15 \<le> ceil_div 15 TILE_WIDTH * TILE_WIDTH"
    by (simp add: ceil_div_def TILE_WIDTH_def)
  have s: "(\<Sum>k<15. replicate 225 (1 :: rat) ! (14 * 15 + k) * replicate 225 v ! (k * 15 + 14))
      = 15 * v" for v :: rat
  proof -
    have "(\<Sum>k<15. replicate 225 (1 :: rat) ! (14 * 15 + k) * replicate 225 v ! (k * 15 + 14))
        = (\<Sum>k<(15 :: nat). v)"
      by (intro sum.cong refl) simp
    then show ?thesis by simp
  qed
  show ?thesis
    using cover s [of 2] s [of "-2"]
      matrixMultiplyShared_clamped_product [of 15 15 15 "ceil_div 15 TILE_WIDTH" 15
        "ceil_div 15 TILE_WIDTH" 14 14 "replicate 225 (9 :: rat)"
        "\<lambda>_. \<lparr>Ads = (\<lambda>_ _. 7), Bds = (\<lambda>_ _. 7)\<rparr>" "replicate 225 1" "replicate 225 2" 15 15]
      matrixMultiplyShared_clamped_product [of 15 15 15 "ceil_div 15 TILE_WIDTH" 15
        "ceil_div 15 TILE_WIDTH" 14 14 "replicate 225 (9 :: rat)"
        "\<lambda>_. \<lparr>Ads = (\<lambda>_ _. 7), Bds = (\<lambda>_ _. 7)\<rparr>" "replicate 225 1" "replicate 225 (-2)" 15 15]
    by simp
qed

text \<open>The claim as stated fails: for \<open>A = [1]\<close>, \<open>B = [-1]\<close> the kernel stores 0, and the dot
  product is \<open>-1\<close>.\<close>

theorem matrixMultiplyShared_not_plain_product:
  "matrixMultiplyShared (1, 1) (\<lambda>_. \<lparr>Ads = (\<lambda>_ _. 0), Bds = (\<lambda>_ _. 0)\<rparr>)
     [1] [-1] [5 :: rat] 0 1 1 1 1 1 1 ! (0 * 1 + 0)
   \<noteq> (\<Sum>k<1. [1] ! (0 * 1 + k) * [-1] ! (k * 1 + 0))"
  using matrixMultiplyShared_nth [of 1 1 1 1 0 0 0 "[5 :: rat]"
      "\<lambda>_. \<lparr>Ads = (\<lambda>_ _. 0), Bds = (\<lambda>_ _. 0)\<rparr>" "[1]" "[-1]" 1 1 1 1]
  by (simp add: mm_cell_def TILE_WIDTH_def)

text \<open>
  C4, as amended. The sequential fully-connected operator computes
  \<open>Y[i, j] = \<Sum>k. X[i, k] * W[k, j]\<close> with no bias and no activation, and is linear in the
  weights: on \<open>W1 + W2\<close> it returns the elementwise sum of its results on \<open>W1\<close> and on
  \<open>W2\<close>. The CUDA-path operator stores \<open>max(0, \<Sum>k. X[i, k] * W[k, j])\<close> instead.
\<close>

theorem fully_forward_seq_linear_in_weights:
  assumes "length W1 = K * J" "length W2 = K * J" "length Y = R * J"
  shows "(\<forall>i<R. \<forall>j<J. fully_forward_seq X [R, K] W1 [K, J] Y ydims ! (i * J + j)
            = (\<Sum>k<K. X ! (i * K + k) * W1 ! (k * J + j)))
       \<and> fully_forward_seq X [R, K] (map2 (+) W1 W2) [K, J] Y ydims
            = map2 (+) (fully_forward_seq X [R, K] W1 [K, J] Y ydims)
                       (fully_forward_seq X [R, K] W2 [K, J] Y ydims)
       \<and> (\<forall>i<R. \<forall>j<J. fully_forward_cuda X [R, K] W1 [K, J] Y ydims ! (i * J + j)
            = max 0 (\<Sum>k<K. X ! (i * K + k) * W1 ! (k * J + j)))"
  using fully_forward_seq_linear [OF assms] fully_forward_seq_nth [OF assms(3)]
    fully_forward_cuda_nth [OF assms(3)]
  by (simp add: dense_cell_def)

text \<open>The theorem on a \<open>1 \<times> 2\<close> input and two \<open>2 \<times> 1\<close> weight matrices.\<close>

theorem fully_forward_seq_linear_in_weights_witness:
  "length [2, 1 :: rat] = 2 * 1 \<and> length [-3, 4 :: rat] = 2 * 1 \<and> length [9 :: rat] = 1 * 1
   \<and> fully_forward_seq [1, 5] [1, 2] [2, 1] [2, 1] [9] [1, 1] = [7 :: rat]
   \<and> fully_forward_seq [1, 5] [1, 2] [-3, 4] [2, 1] [9] [1, 1] = [17 :: rat]
   \<and> fully_forward_seq [1, 5] [1, 2] (map2 (+) [2, 1] [-3, 4]) [2, 1] [9] [1, 1] = [24 :: rat]"
proof -
  have a: "fully_forward_seq [1, 5] [1, 2] [2, 1] [2, 1] [9] [1, 1] = [7 :: rat]"
    and b: "fully_forward_seq [1, 5] [1, 2] [-3, 4] [2, 1] [9] [1, 1] = [17 :: rat]"
    by (simp_all add: fully_forward_seq_def eval_nat_numeral)
  show ?thesis
    using fully_forward_seq_linear_in_weights
      [of "[2, 1 :: rat]" 2 1 "[-3, 4]" "[9]" 1 "[1, 5]" "[1, 1]"] a b
    by simp
qed

text \<open>The claim as stated fails on the CUDA-path operator: with \<open>X = [1]\<close> and \<open>W = [-1]\<close> it stores
  0, not \<open>-1\<close>, and it is not additive on \<open>W1 = [1]\<close>, \<open>W2 = [-1]\<close>.\<close>

theorem fully_forward_cuda_not_linear:
  "fully_forward_cuda [1] [1, 1] [-1] [1, 1] [0] [1, 1] ! 0
     \<noteq> (\<Sum>k<1. [1 :: rat] ! (0 * 1 + k) * [-1] ! (k * 1 + 0))
   \<and> fully_forward_cuda [1] [1, 1] (map2 (+) [1] [-1]) [1, 1] [0] [1, 1]
     \<noteq> map2 (+) (fully_forward_cuda [1 :: rat] [1, 1] [1] [1, 1] [0] [1, 1])
                (fully_forward_cuda [1] [1, 1] [-1] [1, 1] [0] [1, 1])"
  by (simp add: fully_forward_cuda_def)


text \<open>
  C5. The average-pool contract asks for the mean of the \<open>f \<times> f\<close> window in every output
  cell. The sequential operator meets it, but the kernel launch does not for every shape:
  the kernel takes the column tile from \<open>blockIdx.z\<close> modulo the number of row tiles. On a
  \<open>1 \<times> 2 \<times> 34 \<times> 1\<close> input of ones with \<open>f = 2\<close> (output \<open>1 \<times> 1 \<times> 17 \<times> 1\<close>, two column
  tiles, one row tile) no thread stores to the cell \<open>[0, 0, 16, 0]\<close>: it keeps its initial 0,
  where the window mean is 1 and the sequential operator stores 1.
\<close>

theorem average_pool_kernel_misses_tile:
  "average_pool_launch 1 1 (replicate 68 1) (zeros [1, 1, 17, 1]) [1, 2, 34, 1] [1, 1, 17, 1] 2
     ! (((0 * 1 + 0) * 17 + 16) * 1 + 0) = (0 :: rat)
   \<and> pool_cell (replicate 68 (1 :: rat)) [1, 2, 34, 1] 2 0 0 16 0 = 1
   \<and> average_pool (replicate 68 1) [1, 2, 34, 1] 2 (zeros [1, 1, 17, 1]) [1, 1, 17, 1]
     ! (((0 * 1 + 0) * 17 + 16) * 1 + 0) = (1 :: rat)"
proof -
  let ?ydims = "[1, 1, 17, 1] :: nat list"
  have notin: "16 \<notin> (\<Union>bx<1. \<Union>by<1.
        \<Union>bz<((?ydims ! 2 - 1) div TILE_WIDTH + 1) * ((?ydims ! 1 - 1) div TILE_WIDTH + 1).
        \<Union>t\<in>set block_threads. pool_thread_cells ?ydims (bx, by, bz) t)"
    by (auto simp add: pool_thread_cells_def block_threads_iff TILE_WIDTH_def Let_def
        split: if_splits)
  have kernel: "average_pool_launch 1 1 (replicate 68 1) (zeros ?ydims) [1, 2, 34, 1] ?ydims 2
     ! 16 = (0 :: rat)"
    using writes_nth [OF average_pool_launch_writes, of 1 ?ydims 16 "zeros ?ydims" 1
        "replicate 68 (1 :: rat)" "[1, 2, 34, 1]" 2] notin
    by (simp add: zeros_def)
  have cell: "pool_cell (replicate 68 (1 :: rat)) [1, 2, 34, 1] 2 0 0 16 0 = 1"
    by (simp add: pool_cell_def lessThan_Suc numeral_2_eq_2)
  have "average_pool (replicate 68 1) [1, 2, 34, 1] 2 (zeros ?ydims) ?ydims
     ! (((0 * 1 + 0) * 17 + 16) * 1 + 0)
     = zeros ?ydims ! (((0 * 1 + 0) * 17 + 16) * 1 + 0)
       + pool_cell (replicate 68 (1 :: rat)) [1, 2, 34, 1] 2 0 0 16 0"
    by (rule average_pool_nth) (simp_all add: zeros_def)
  then have seq: "average_pool (replicate 68 1) [1, 2, 34, 1] 2 (zeros ?ydims) ?ydims ! 16 = (1 :: rat)"
    using cell by (simp add: zeros_def)
  show ?thesis using kernel cell seq by simp
qed

text \<open>
  C6. For every batch size \<open>N\<close> the shapes the forward pipeline derives from the fixed
  hyperparameters are conv1 \<open>N \<times> 24 \<times> 24 \<times> 32\<close>, pool1 \<open>N \<times> 12 \<times> 12 \<times> 32\<close>, conv2
  \<open>N \<times> 8 \<times> 8 \<times> 64\<close>, pool2 \<open>N \<times> 4 \<times> 4 \<times> 64\<close>, flatten \<open>N \<times> 1024\<close>, fc1 \<open>N \<times> 128\<close>
  and fc2 \<open>N \<times> 10\<close>; the computation is a total function of the batch size and the
  constants alone.
\<close>

theorem forward_operation_shapes:
  "forward_operation_dims N =
     \<lparr>adims = [N, 24, 24, 32], bdims = [N, 12, 12, 32], cdims = [N, 8, 8, 64],
      ddims = [N, 4, 4, 64], ddims2 = [N, 1024], edims = [N, 128], fdims = [N, 10]\<rparr>"
  by (simp add: forward_operation_dims_def xdims_of_def NUM_ROWS_def NUM_COLS_def
      NUM_CHANNELS_def conv1dims_def conv2dims_def fc1dims_def fc2dims_def pool_size_def Let_def)


text \<open>
  C7. For a score matrix \<open>X\<close> of shape \<open>R \<times> C\<close> with \<open>C \<ge> 1\<close>, \<open>argmax\<close> stores for
  every row \<open>i\<close> the smallest column index at which the row attains its maximum; the row
  \<open>[0.5, 0.5, 0.3]\<close> gives index 0.
\<close>

theorem argmax_first_maximum:
  "(1 \<le> C \<longrightarrow> i < R \<longrightarrow> length Y = R \<longrightarrow>
       first_max_index (X :: 'a::linordered_field list) C i (argmax X [R, C] Y ! i))
   \<and> argmax [1 / 2, 1 / 2, 3 / 10 :: 'a] [1, 3] [7] = [0]"
proof -
  have "argmax [1 / 2, 1 / 2, 3 / 10 :: 'a] [1, 3] [7] = [0]"
    by (simp add: argmax_def Let_def eval_nat_numeral)
  then show ?thesis
    by (simp add: argmax_nth argmax_row_first_max)
qed

text \<open>The theorem on a \<open>2 \<times> 4\<close> matrix whose first row has its maximum twice.\<close>

theorem argmax_first_maximum_witness:
  "(1::nat) \<le> 4 \<and> (0::nat) < 2 \<and> length [5, 5 :: nat] = 2
   \<and> first_max_index [3, 9, 2, 9 :: rat, 1, 1, 0, 1] 4 0
        (argmax [3, 9, 2, 9 :: rat, 1, 1, 0, 1] [2, 4] [5, 5] ! 0)
   \<and> argmax [3, 9, 2, 9 :: rat, 1, 1, 0, 1] [2, 4] [5, 5] = [1, 0]"
proof -
  have "argmax [3, 9, 2, 9 :: rat, 1, 1, 0, 1] [2, 4] [5, 5] = [1, 0]"
    by (simp add: argmax_def Let_def eval_nat_numeral)
  moreover have "first_max_index [3, 9, 2, 9 :: rat, 1, 1, 0, 1] 4 0
        (argmax [3, 9, 2, 9 :: rat, 1, 1, 0, 1] [2, 4] [5, 5] ! 0)"
    using argmax_first_maximum [of 4 0 2 "[5, 5]" "[3, 9, 2, 9 :: rat, 1, 1, 0, 1]"]
    by simp
  ultimately show ?thesis by simp
qed

text \<open>
  C8. The direct-form convolution and the sequential average pool write by \<open>+=\<close>: started on
  an arbitrary output buffer \<open>Y0\<close> of the output shape they leave \<open>Y0\<close> plus the contractual
  result in every cell (and keep the length), and they leave the contractual result itself
  exactly when \<open>Y0\<close> is the zero buffer.
\<close>

theorem accumulate_into_output:
  fixes Y0 :: "'a::linordered_field list"
  assumes len: "length Y0 = N * H' * W' * M"
  shows "(\<forall>n<N. \<forall>h<H'. \<forall>w<W'. \<forall>m<M.
            conv_forward_valid X xdims Wt wdims Y0 [N, H', W', M] ! (((n * H' + h) * W' + w) * M + m)
              = Y0 ! (((n * H' + h) * W' + w) * M + m) + conv_cell X xdims Wt wdims n h w m
          \<and> average_pool X xdims f Y0 [N, H', W', M] ! (((n * H' + h) * W' + w) * M + m)
              = Y0 ! (((n * H' + h) * W' + w) * M + m) + pool_cell X xdims f n h w m)
       \<and> length (conv_forward_valid X xdims Wt wdims Y0 [N, H', W', M]) = length Y0
       \<and> length (average_pool X xdims f Y0 [N, H', W', M]) = length Y0
       \<and> ((\<forall>n<N. \<forall>h<H'. \<forall>w<W'. \<forall>m<M.
             conv_forward_valid X xdims Wt wdims Y0 [N, H', W', M] ! (((n * H' + h) * W' + w) * M + m)
               = conv_cell X xdims Wt wdims n h w m)
            \<longleftrightarrow> Y0 = zeros [N, H', W', M])
       \<and> ((\<forall>n<N. \<forall>h<H'. \<forall>w<W'. \<forall>m<M.
             average_pool X xdims f Y0 [N, H', W', M] ! (((n * H' + h) * W' + w) * M + m)
               = pool_cell X xdims f n h w m)
            \<longleftrightarrow> Y0 = zeros [N, H', W', M])"
proof -
  have conv: "conv_forward_valid X xdims Wt wdims Y0 [N, H', W', M] ! (((n * H' + h) * W' + w) * M + m)
      = Y0 ! (((n * H' + h) * W' + w) * M + m) + conv_cell X xdims Wt wdims n h w m"
    if "n < N" "h < H'" "w < W'" "m < M" for n h w m
    using conv_forward_valid_nth [OF len that] .
  have pool: "average_pool X xdims f Y0 [N, H', W', M] ! (((n * H' + h) * W' + w) * M + m)
      = Y0 ! (((n * H' + h) * W' + w) * M + m) + pool_cell X xdims f n h w m"
    if "n < N" "h < H'" "w < W'" "m < M" for n h w m
    using average_pool_nth [OF len that] .
  have l1: "length (conv_forward_valid X xdims Wt wdims Y0 [N, H', W', M]) = length Y0"
    by (rule acc_by_length [OF conv_forward_valid_acc])
  have l2: "length (average_pool X xdims f Y0 [N, H', W', M]) = length Y0"
    by (rule acc_by_length [OF average_pool_acc])
  have i1: "(\<forall>n<N. \<forall>h<H'. \<forall>w<W'. \<forall>m<M.
             conv_forward_valid X xdims Wt wdims Y0 [N, H', W', M] ! (((n * H' + h) * W' + w) * M + m)
               = conv_cell X xdims Wt wdims n h w m)
            \<longleftrightarrow> Y0 = zeros [N, H', W', M]"
    unfolding cells_zero_iff [OF len, symmetric] by (simp add: conv)
  have i2: "(\<forall>n<N. \<forall>h<H'. \<forall>w<W'. \<forall>m<M.
             average_pool X xdims f Y0 [N, H', W', M] ! (((n * H' + h) * W' + w) * M + m)
               = pool_cell X xdims f n h w m)
            \<longleftrightarrow> Y0 = zeros [N, H', W', M]"
    unfolding cells_zero_iff [OF len, symmetric] by (simp add: pool)
  show ?thesis
    by (intro conjI allI impI conv pool l1 l2 i1 i2)
qed

text \<open>The theorem on one-cell tensors with \<open>Y0 = [5]\<close>.\<close>

theorem accumulate_into_output_witness:
  "length [5 :: rat] = 1 * 1 * 1 * 1
   \<and> conv_forward_valid [2] [1, 1, 1, 1] [3] [1, 1, 1, 1] [5 :: rat] [1, 1, 1, 1] ! 0 = 11
   \<and> average_pool [2] [1, 1, 1, 1] 1 [5 :: rat] [1, 1, 1, 1] ! 0 = 7"
  using accumulate_into_output [of "[5 :: rat]" 1 1 1 1 "[2]" "[1, 1, 1, 1]" "[3]" "[1, 1, 1, 1]" 1]
  by (simp add: conv_cell_def pool_cell_def)

text \<open>
  C9. On a rank-4 test-data source and a configured batch size that is a non-negative
  \<open>int\<close>: when the first extent of \<open>/x\<close> differs from the batch size, \<open>loadData\<close> returns
  the error code 1 and both caller buffers are as they were; when it equals the batch size
  and every HDF5 call passes \<open>check_success\<close>, \<open>loadData\<close> reads both datasets into the
  buffers and returns 0.
\<close>

theorem loadData_batch_check:
  assumes "xndims src = 4" "length (input_dims src) = 4" "0 \<le> b" "b < 2 ^ 31"
  shows "(uint (input_dims src ! 0) \<noteq> b \<longrightarrow>
            loadData check_success src b (x, y) = (Returned 1, x, y))
       \<and> (uint (input_dims src ! 0) = b \<longrightarrow>
            check_success (fst (x_read src)) \<longrightarrow> check_success (fst (y_read src)) \<longrightarrow>
            check_success (x_close src) \<longrightarrow> check_success (y_close src) \<longrightarrow>
            check_success (file_close src) \<longrightarrow>
            loadData check_success src b (x, y)
              = (Returned 0, H5Dread x (snd (x_read src)), H5Dread y (snd (y_read src))))"
  using assms batch_compare [of b "input_dims src ! 0"]
  by (auto simp add: loadData_def Let_def)

text \<open>The theorem on a source of batch extent 2, loaded with batch size 10 and with batch size 2.\<close>

theorem loadData_batch_check_witness:
  "loadData (\<lambda>s. 0 \<le> s)
      \<lparr>xndims = 4, input_dims = [2, 28, 28, 1], x_read = (0, [1, 2, 3 :: rat]), y_read = (0, [4, 5]),
       x_close = 0, y_close = 0, file_close = 0\<rparr> 10 ([0, 0, 0], [0, 0])
     = (Returned 1, [0, 0, 0], [0, 0])
   \<and> loadData (\<lambda>s. 0 \<le> s)
      \<lparr>xndims = 4, input_dims = [2, 28, 28, 1], x_read = (0, [1, 2, 3 :: rat]), y_read = (0, [4, 5]),
       x_close = 0, y_close = 0, file_close = 0\<rparr> 2 ([0, 0, 0], [0, 0])
     = (Returned 0, [1, 2, 3], [4, 5])"
  using loadData_batch_check [of "\<lparr>xndims = 4, input_dims = [2, 28, 28, 1], x_read = (0, [1, 2, 3 :: rat]),
       y_read = (0, [4, 5]), x_close = 0, y_close = 0, file_close = 0\<rparr>" 10 "\<lambda>s. 0 \<le> s"
       "[0, 0, 0]" "[0, 0]"]
    loadData_batch_check [of "\<lparr>xndims = 4, input_dims = [2, 28, 28, 1], x_read = (0, [1, 2, 3 :: rat]),
       y_read = (0, [4, 5]), x_close = 0, y_close = 0, file_close = 0\<rparr>" 2 "\<lambda>s. 0 \<le> s"
       "[0, 0, 0]" "[0, 0]"]
  by (simp add: H5Dread_def)

text \<open>
  C10. The CUDA-path fully-connected operator stores \<open>max(0, \<Sum>k. X[i, k] * W[k, j])\<close> in
  every output cell, which is non-negative; the score matrix of the CUDA pipeline is the
  output of this operator for the fc2 layer, has \<open>N \<times> 10\<close> cells, all of them non-negative,
  and is what \<open>argmax\<close> receives.
\<close>

theorem fully_forward_cuda_clamps:
  "(length Y = R * J \<longrightarrow> i < R \<longrightarrow> j < J \<longrightarrow>
      fully_forward_cuda X [R, K] W [K, J] Y ydims ! (i * J + j)
        = max 0 (\<Sum>k<K. X ! (i * K + k) * W ! (k * J + j))
      \<and> 0 \<le> fully_forward_cuda X [R, K] W [K, J] Y ydims ! (i * J + j))
   \<and> length (forward_operation_cuda_f u N x conv1 conv2 fc1 fc2) = N * 10
   \<and> (\<forall>k<N * 10. 0 \<le> forward_operation_cuda_f u N x conv1 conv2 fc1 fc2 ! k)
   \<and> forward_operation_cuda u N x conv1 conv2 fc1 fc2 out
       = argmax (forward_operation_cuda_f u N x conv1 conv2 fc1 fc2) [N, 10] out"
proof -
  obtain E where f: "forward_operation_cuda_f u N x conv1 conv2 fc1 fc2
     = fully_forward_cuda E [N, 128] fc2 [128, 10] (zeros [N, 10]) [N, 10]"
    using forward_operation_cuda_f_shape by blast
  have len: "length (forward_operation_cuda_f u N x conv1 conv2 fc1 fc2) = N * 10"
    unfolding f by (simp add: writes_length [OF fully_forward_cuda_writes] length_zeros)
  have nonneg: "0 \<le> forward_operation_cuda_f u N x conv1 conv2 fc1 fc2 ! k" if k: "k < N * 10" for k
  proof -
    obtain i j where ij: "i < N" "j < 10" "k = i * 10 + j"
      using row_major_decode2 [OF k] by blast
    have "fully_forward_cuda E [N, 128] fc2 [128, 10] (zeros [N, 10]) [N, 10] ! (i * 10 + j)
        = max 0 (dense_cell E 128 fc2 10 i j)"
      by (rule fully_forward_cuda_nth) (simp_all add: length_zeros ij)
    then show ?thesis
      unfolding f ij(3) by simp
  qed
  have out: "forward_operation_cuda u N x conv1 conv2 fc1 fc2 out
       = argmax (forward_operation_cuda_f u N x conv1 conv2 fc1 fc2) [N, 10] out"
    by (simp add: forward_operation_cuda_def forward_operation_dims_eq)
  show ?thesis
    using len nonneg out by (simp add: fully_forward_cuda_nth dense_cell_def)
qed

text \<open>The theorem on a \<open>1 \<times> 2\<close> input whose product with the weights is \<open>-7\<close>, and on the
  pipeline for a batch of one image.\<close>

theorem fully_forward_cuda_clamps_witness:
  "length [9 :: rat] = 1 * 1 \<and> (0 :: nat) < 1
   \<and> fully_forward_cuda [1, 2] [1, 2] [3, -5] [2, 1] [9 :: rat] [1, 1] ! (0 * 1 + 0) = 0
   \<and> (3 :: nat) < 1 * 10
   \<and> 0 \<le> forward_operation_cuda_f (const_fwd_uninit 7) 1 (replicate 784 (1 :: rat))
            (replicate 800 (-1)) (replicate 51200 1) (replicate 131072 1) (replicate 1280 (-1)) ! 3"
proof -
  note inst = fully_forward_cuda_clamps [of "[9 :: rat]" 1 1 0 0 "[1, 2]" 2 "[3, -5]" "[1, 1]"
      "const_fwd_uninit (7 :: rat)" 1 "replicate 784 1" "replicate 800 (-1)" "replicate 51200 1"
      "replicate 131072 1" "replicate 1280 (-1)"]
  have "fully_forward_cuda [1, 2] [1, 2] [3, -5] [2, 1] [9 :: rat] [1, 1] ! (0 * 1 + 0) = 0"
    using conjunct1 [OF fully_forward_cuda_clamps [of "[9 :: rat]" 1 1 0 0 "[1, 2]" 2 "[3, -5]" "[1, 1]"]]
    by (simp add: lessThan_Suc eval_nat_numeral)
  moreover have "0 \<le> forward_operation_cuda_f (const_fwd_uninit 7) 1 (replicate 784 (1 :: rat))
            (replicate 800 (-1)) (replicate 51200 1) (replicate 131072 1) (replicate 1280 (-1)) ! 3"
    using inst [THEN conjunct2, THEN conjunct2, THEN conjunct1, rule_format, of 3] by simp
  ultimately show ?thesis by simp
qed

end
